theory Spec2Isabelle
  imports Complex_Main "HOL-Library.Signed_Division"
begin

section \<open>The abstract syntax (base.ts, lines 1-8)\<close>

text \<open>
  The tagged union \<open>AlgExpr\<close> of the source; its variant \<open>Int\<close> is written \<open>IntV\<close>
  here, the name \<open>Int\<close> being taken by set intersection. The \<open>number\<close> carried by an
  \<open>Int\<close> node is a floating-point number of the host; it is modelled as an integer
  without bound. The two agree as long as every number that occurs is an integer of
  magnitude below \<open>2^53\<close>: there the host's \<open>+\<close>, \<open>-\<close>, \<open>*\<close>, \<open>%\<close>, exact \<open>/\<close> and
  \<open>parseInt\<close> are those of the integers. Beyond it the host rounds, and from
  \<open>10^309\<close> on it computes with \<open>Infinity\<close> and \<open>NaN\<close>, which the model does not have.
  The negative zero of the host, which it prints and compares as zero, is the integer
  zero here.
  The printing of a number by the host is not modelled at all: it is a parameter of the
  renderer. Strings are lists of 8-bit characters.
\<close>

datatype AlgExpr =
    IntV int
  | Var string
  | Add AlgExpr AlgExpr
  | Sub AlgExpr AlgExpr
  | Mul AlgExpr AlgExpr
  | Div AlgExpr AlgExpr
  | Neg AlgExpr

text \<open>The \<open>op\<close> field of an operator token: one of the four characters + - * /.\<close>

datatype opchar = Plus | Minus | Times | Slash

datatype token =
    TNumber int
  | TVar string
  | TOp opchar
  | TLParen
  | TRParen

text \<open>
  Every \<open>throw new Error(...)\<close> of the source, one constructor per message: five raised by
  the tokenizer and the parser, \<open>ExpressionIsNotANumber\<close> by \<open>getValue\<close>. The last
  constructor is not a throw: it marks the lookup \<open>varMap.get(name)!\<close> of a name the map
  does not hold, whose result is outside the type \<open>AlgExpr\<close>. The checker never meets it
  (lemma \<open>areExpressionsEquivalent_returns\<close>).
\<close>

datatype error =
    UnexpectedCharacter char
  | UnexpectedEndOfInput
  | ExpectedClosingParenthesis
  | UnexpectedToken token
  | UnexpectedTokensAfterExpression
  | ExpressionIsNotANumber
  | UndefinedVariableValue string

section \<open>The evaluator (base.ts, lines 233-305)\<close>

fun isNumber :: "AlgExpr \<Rightarrow> bool" where
  "isNumber (IntV v) = True"
| "isNumber (Neg (IntV v)) = True"
| "isNumber e = False"

fun getValue :: "AlgExpr \<Rightarrow> error + int" where
  "getValue (Neg (IntV v)) = Inr (- v)"
| "getValue (IntV v) = Inr v"
| "getValue e = Inl ExpressionIsNotANumber"

definition standardizeNumber :: "int \<Rightarrow> AlgExpr" where
  "standardizeNumber n = (if n < 0 then Neg (IntV (- n)) else IntV n)"

text \<open>
  The branch shared by \<open>Add\<close>, \<open>Sub\<close> and \<open>Mul\<close> once both children are evaluated
  (lines 260-277): \<open>f\<close> is the arithmetic of the \<open>switch\<close>, \<open>mk\<close> rebuilds a node of the
  same \<open>type\<close>. The calls of \<open>getValue\<close> may throw, so their errors are passed on. The
  arithmetic \<open>f\<close> is taken on the integers: it is the host's while operands and result
  are below \<open>2^53\<close> in magnitude.
\<close>

definition combineArith ::
  "(int \<Rightarrow> int \<Rightarrow> int) \<Rightarrow> (AlgExpr \<Rightarrow> AlgExpr \<Rightarrow> AlgExpr) \<Rightarrow> AlgExpr \<Rightarrow> AlgExpr \<Rightarrow> error + AlgExpr" where
  "combineArith f mk left right =
     (if isNumber left \<and> isNumber right then
        (case getValue left of
           Inl err \<Rightarrow> Inl err
         | Inr x \<Rightarrow>
             (case getValue right of
                Inl err \<Rightarrow> Inl err
              | Inr y \<Rightarrow> Inr (standardizeNumber (f x y))))
      else Inr (mk left right))"

text \<open>
  The \<open>Div\<close> branch (lines 285-291). The conjunction is evaluated left to right and stops
  at the first false conjunct. \<open>%\<close> is the remainder of the truncating division
  (\<open>smod\<close>); under the guard the quotient \<open>/\<close> is exact, so it is the truncating
  quotient \<open>sdiv\<close>.
\<close>

definition combineDiv :: "AlgExpr \<Rightarrow> AlgExpr \<Rightarrow> error + AlgExpr" where
  "combineDiv left right =
     (if isNumber left \<and> isNumber right then
        (case getValue right of
           Inl err \<Rightarrow> Inl err
         | Inr y \<Rightarrow>
             if y \<noteq> 0 then
               (case getValue left of
                  Inl err \<Rightarrow> Inl err
                | Inr x \<Rightarrow>
                    if x smod y = 0 then Inr (standardizeNumber (x sdiv y))
                    else Inr (Div left right))
             else Inr (Div left right))
      else Inr (Div left right))"

fun evaluateExpression :: "AlgExpr \<Rightarrow> error + AlgExpr" where
  "evaluateExpression (Add a b) =
     (case evaluateExpression a of
        Inl err \<Rightarrow> Inl err
      | Inr left \<Rightarrow>
          (case evaluateExpression b of
             Inl err \<Rightarrow> Inl err
           | Inr right \<Rightarrow> combineArith (+) Add left right))"
| "evaluateExpression (Sub a b) =
     (case evaluateExpression a of
        Inl err \<Rightarrow> Inl err
      | Inr left \<Rightarrow>
          (case evaluateExpression b of
             Inl err \<Rightarrow> Inl err
           | Inr right \<Rightarrow> combineArith (-) Sub left right))"
| "evaluateExpression (Mul a b) =
     (case evaluateExpression a of
        Inl err \<Rightarrow> Inl err
      | Inr left \<Rightarrow>
          (case evaluateExpression b of
             Inl err \<Rightarrow> Inl err
           | Inr right \<Rightarrow> combineArith (*) Mul left right))"
| "evaluateExpression (Div a b) =
     (case evaluateExpression a of
        Inl err \<Rightarrow> Inl err
      | Inr left \<Rightarrow>
          (case evaluateExpression b of
             Inl err \<Rightarrow> Inl err
           | Inr right \<Rightarrow> combineDiv left right))"
| "evaluateExpression (Neg a) =
     (case evaluateExpression a of
        Inl err \<Rightarrow> Inl err
      | Inr argEval \<Rightarrow>
          (case argEval of
             Neg inner \<Rightarrow> Inr inner
           | _ \<Rightarrow> Inr (Neg argEval)))"
| "evaluateExpression e = Inr e"

section \<open>The renderer (base.ts, lines 10-27)\<close>

text \<open>
  The decimal digits of an integer, after a minus sign when it is negative. This is what
  the host prints for an integer of magnitude below \<open>2^53\<close>.
\<close>

definition digitChar :: "nat \<Rightarrow> char" where
  "digitChar d = ''0123456789'' ! d"

function digitsOf :: "nat \<Rightarrow> string" where
  "digitsOf n = (if n < 10 then [digitChar n] else digitsOf (n div 10) @ [digitChar (n mod 10)])"
  by pat_completeness auto
termination
  by (relation "measure (\<lambda>n. n)") auto

declare digitsOf.simps [simp del]

definition decimalString :: "int \<Rightarrow> string" where
  "decimalString v = (if v < 0 then CHR ''-'' # digitsOf (nat (- v)) else digitsOf (nat v))"

text \<open>
  \<open>value.toString()\<close> is the printing of a number by the host, which the source does not
  define: the renderer takes it as the parameter \<open>toStr\<close>. The host prints an integer
  of magnitude below \<open>2^53\<close> as \<open>decimalString\<close> does, and from \<open>10^21\<close> on it prints
  in exponent notation (\<open>1e+21\<close>); nothing else is assumed of it, and what a theorem
  needs of \<open>toStr\<close> is among its hypotheses.
\<close>

fun renderExpression :: "(int \<Rightarrow> string) \<Rightarrow> AlgExpr \<Rightarrow> string" where
  "renderExpression toStr (IntV v) = toStr v"
| "renderExpression toStr (Var name) = name"
| "renderExpression toStr (Add a b) =
     ''('' @ renderExpression toStr a @ '' + '' @ renderExpression toStr b @ '')''"
| "renderExpression toStr (Sub a b) =
     ''('' @ renderExpression toStr a @ '' - '' @ renderExpression toStr b @ '')''"
| "renderExpression toStr (Mul a b) =
     ''('' @ renderExpression toStr a @ '' * '' @ renderExpression toStr b @ '')''"
| "renderExpression toStr (Div a b) =
     ''('' @ renderExpression toStr a @ '' / '' @ renderExpression toStr b @ '')''"
| "renderExpression toStr (Neg a) = ''(-'' @ renderExpression toStr a @ '')''"

section \<open>The tokenizer (base.ts, lines 57-116)\<close>

text \<open>
  The three regular expressions of the tokenizer on 8-bit characters: \<open>\s\<close> matches tab,
  line feed, vertical tab, form feed, carriage return, space and the no-break space;
  \<open>\d\<close> matches the ten ASCII digits; \<open>[a-zA-Z]\<close> the ASCII letters.
\<close>

definition isSpace :: "char \<Rightarrow> bool" where
  "isSpace c = (c \<in> set [CHR 0x09, CHR 0x0A, CHR 0x0B, CHR 0x0C, CHR 0x0D, CHR 0x20, CHR 0xA0])"

definition isDigit :: "char \<Rightarrow> bool" where
  "isDigit c = (c \<in> set ''0123456789'')"

definition isLetter :: "char \<Rightarrow> bool" where
  "isLetter c = (c \<in> set ''abcdefghijklmnopqrstuvwxyzABCDEFGHIJKLMNOPQRSTUVWXYZ'')"

text \<open>
  \<open>parseInt\<close> on a run of decimal digits: the number they denote in base ten. The host
  returns the floating-point number nearest to it, which is the number itself below
  \<open>2^53\<close>.
\<close>

definition digitValue :: "char \<Rightarrow> int" where
  "digitValue c = int (of_char c) - 48"

definition parseInt :: "string \<Rightarrow> int" where
  "parseInt numStr = foldl (\<lambda>acc c. 10 * acc + digitValue c) 0 numStr"

definition isOperator :: "char \<Rightarrow> bool" where
  "isOperator c = (c = CHR ''+'' \<or> c = CHR ''-'' \<or> c = CHR ''*'' \<or> c = CHR ''/'')"

definition operatorOf :: "char \<Rightarrow> opchar" where
  "operatorOf c =
     (if c = CHR ''+'' then Plus else if c = CHR ''-'' then Minus
      else if c = CHR ''*'' then Times else Slash)"

text \<open>
  The position \<open>i\<close> in the input is represented by the input from \<open>i\<close> on, the two inner
  loops that collect a run of digits or letters by \<open>takeWhile\<close> and \<open>dropWhile\<close>. The
  tokens come out in the order in which the source pushes them; an unexpected character
  aborts the whole call.
\<close>

function tokenize :: "string \<Rightarrow> error + token list" where
  "tokenize [] = Inr []"
| "tokenize (c # cs) =
     (if isSpace c then tokenize cs
      else if isDigit c then
        (case tokenize (dropWhile isDigit cs) of
           Inl err \<Rightarrow> Inl err
         | Inr tokens \<Rightarrow> Inr (TNumber (parseInt (c # takeWhile isDigit cs)) # tokens))
      else if isLetter c then
        (case tokenize (dropWhile isLetter cs) of
           Inl err \<Rightarrow> Inl err
         | Inr tokens \<Rightarrow> Inr (TVar (c # takeWhile isLetter cs) # tokens))
      else if isOperator c then
        (case tokenize cs of
           Inl err \<Rightarrow> Inl err
         | Inr tokens \<Rightarrow> Inr (TOp (operatorOf c) # tokens))
      else if c = CHR ''('' then
        (case tokenize cs of
           Inl err \<Rightarrow> Inl err
         | Inr tokens \<Rightarrow> Inr (TLParen # tokens))
      else if c = CHR '')'' then
        (case tokenize cs of
           Inl err \<Rightarrow> Inl err
         | Inr tokens \<Rightarrow> Inr (TRParen # tokens))
      else Inl (UnexpectedCharacter c))"
  by pat_completeness auto
termination
  by (relation "measure length") (auto simp: less_Suc_eq_le length_dropWhile_le)

section \<open>The recursive-descent parser (base.ts, lines 119-228)\<close>

text \<open>
  The parser object holds the token array and the cursor \<open>pos\<close>. The model passes the
  tokens from \<open>pos\<close> on: \<open>peek\<close> is the head of that list (\<open>undefined\<close> when it is
  empty), \<open>consume\<close> drops it. Each method returns the expression together with the tokens
  left, or the error it throws. The two \<open>while\<close> loops are the functions \<open>addSubLoop\<close>
  and \<open>mulDivLoop\<close>, whose first argument is the variable \<open>left\<close>.
\<close>

function
  parseAddSub :: "token list \<Rightarrow> error + AlgExpr \<times> token list" and
  addSubLoop :: "AlgExpr \<Rightarrow> token list \<Rightarrow> error + AlgExpr \<times> token list" and
  parseMulDiv :: "token list \<Rightarrow> error + AlgExpr \<times> token list" and
  mulDivLoop :: "AlgExpr \<Rightarrow> token list \<Rightarrow> error + AlgExpr \<times> token list" and
  parsePrimary :: "token list \<Rightarrow> error + AlgExpr \<times> token list"
where
  "parseAddSub ts =
     (case parseMulDiv ts of
        Inl err \<Rightarrow> Inl err
      | Inr (left, rest) \<Rightarrow> addSubLoop left rest)"
| "addSubLoop left ts =
     (case ts of
        TOp Plus # rest \<Rightarrow>
          (case parseMulDiv rest of
             Inl err \<Rightarrow> Inl err
           | Inr (right, rest') \<Rightarrow> addSubLoop (Add left right) rest')
      | TOp Minus # rest \<Rightarrow>
          (case parseMulDiv rest of
             Inl err \<Rightarrow> Inl err
           | Inr (right, rest') \<Rightarrow> addSubLoop (Sub left right) rest')
      | _ \<Rightarrow> Inr (left, ts))"
| "parseMulDiv ts =
     (case parsePrimary ts of
        Inl err \<Rightarrow> Inl err
      | Inr (left, rest) \<Rightarrow> mulDivLoop left rest)"
| "mulDivLoop left ts =
     (case ts of
        TOp Times # rest \<Rightarrow>
          (case parsePrimary rest of
             Inl err \<Rightarrow> Inl err
           | Inr (right, rest') \<Rightarrow> mulDivLoop (Mul left right) rest')
      | TOp Slash # rest \<Rightarrow>
          (case parsePrimary rest of
             Inl err \<Rightarrow> Inl err
           | Inr (right, rest') \<Rightarrow> mulDivLoop (Div left right) rest')
      | _ \<Rightarrow> Inr (left, ts))"
| "parsePrimary ts =
     (case ts of
        [] \<Rightarrow> Inl UnexpectedEndOfInput
      | TOp Minus # rest \<Rightarrow>
          (case parsePrimary rest of
             Inl err \<Rightarrow> Inl err
           | Inr (expr, rest') \<Rightarrow> Inr (Neg expr, rest'))
      | TNumber v # rest \<Rightarrow> Inr (IntV v, rest)
      | TVar name # rest \<Rightarrow> Inr (Var name, rest)
      | TLParen # rest \<Rightarrow>
          (case parseAddSub rest of
             Inl err \<Rightarrow> Inl err
           | Inr (expr, rest') \<Rightarrow>
               (case rest' of
                  TRParen # rest'' \<Rightarrow> Inr (expr, rest'')
                | _ \<Rightarrow> Inl ExpectedClosingParenthesis))
      | tok # rest \<Rightarrow> Inl (UnexpectedToken tok))"
  by pat_completeness auto

text \<open>
  Termination: every method consumes at least one token, and a loop never gives tokens
  back. This is shown first on the domain of the functions.
\<close>

lemma parser_consumes_dom:
  "parseAddSub_addSubLoop_parseMulDiv_mulDivLoop_parsePrimary_dom (Inl (Inl ts1)) \<Longrightarrow>
     (\<forall>e r. parseAddSub ts1 = Inr (e, r) \<longrightarrow> length r < length ts1)"
  "parseAddSub_addSubLoop_parseMulDiv_mulDivLoop_parsePrimary_dom (Inl (Inr (l2, ts2))) \<Longrightarrow>
     (\<forall>e r. addSubLoop l2 ts2 = Inr (e, r) \<longrightarrow> length r \<le> length ts2)"
  "parseAddSub_addSubLoop_parseMulDiv_mulDivLoop_parsePrimary_dom (Inr (Inl ts3)) \<Longrightarrow>
     (\<forall>e r. parseMulDiv ts3 = Inr (e, r) \<longrightarrow> length r < length ts3)"
  "parseAddSub_addSubLoop_parseMulDiv_mulDivLoop_parsePrimary_dom (Inr (Inr (Inl (l4, ts4)))) \<Longrightarrow>
     (\<forall>e r. mulDivLoop l4 ts4 = Inr (e, r) \<longrightarrow> length r \<le> length ts4)"
  "parseAddSub_addSubLoop_parseMulDiv_mulDivLoop_parsePrimary_dom (Inr (Inr (Inr ts5))) \<Longrightarrow>
     (\<forall>e r. parsePrimary ts5 = Inr (e, r) \<longrightarrow> length r < length ts5)"
proof (induct rule: parseAddSub_addSubLoop_parseMulDiv_mulDivLoop_parsePrimary.pinduct)
  case (1 ts)
  then show ?case
    by (fastforce simp: parseAddSub.psimps split: sum.splits prod.splits)
next
  case (2 left ts)
  then show ?case
    by (fastforce simp: addSubLoop.psimps
          split: sum.splits prod.splits list.splits token.splits opchar.splits)
next
  case (3 ts)
  then show ?case
    by (fastforce simp: parseMulDiv.psimps split: sum.splits prod.splits)
next
  case (4 left ts)
  then show ?case
    by (fastforce simp: mulDivLoop.psimps
          split: sum.splits prod.splits list.splits token.splits opchar.splits)
next
  case (5 ts)
  then show ?case
    by (fastforce simp: parsePrimary.psimps
          split: sum.splits prod.splits list.splits token.splits opchar.splits)
qed

termination parseAddSub
proof (relation "measure (\<lambda>x. case x of
           Inl (Inl ts) \<Rightarrow> 3 * length ts + 2
         | Inl (Inr (l, ts)) \<Rightarrow> 3 * length ts
         | Inr (Inl ts) \<Rightarrow> 3 * length ts + 1
         | Inr (Inr (Inl (l, ts))) \<Rightarrow> 3 * length ts
         | Inr (Inr (Inr ts)) \<Rightarrow> 3 * length ts)", goal_cases)
  case 1
  show ?case by simp
next
  case 2
  show ?case by simp
next
  case (3 ts b x y)
  with parser_consumes_dom(3)[of ts] show ?case by auto
next
  case 4
  then show ?case by simp
next
  case (5 left ts x21 x22 x3 b x y)
  with parser_consumes_dom(3)[of x22] show ?case by auto
next
  case 6
  then show ?case by simp
next
  case (7 left ts x21 x22 x3 b x y)
  with parser_consumes_dom(3)[of x22] show ?case by auto
next
  case 8
  then show ?case by simp
next
  case (9 ts b x y)
  with parser_consumes_dom(5)[of ts] show ?case by auto
next
  case 10
  then show ?case by simp
next
  case (11 left ts x21 x22 x3 b x y)
  with parser_consumes_dom(5)[of x22] show ?case by auto
next
  case 12
  then show ?case by simp
next
  case (13 left ts x21 x22 x3 b x y)
  with parser_consumes_dom(5)[of x22] show ?case by auto
next
  case 14
  then show ?case by simp
next
  case 15
  then show ?case by simp
qed

declare parseAddSub.simps [simp del] addSubLoop.simps [simp del] parseMulDiv.simps [simp del]
  mulDivLoop.simps [simp del] parsePrimary.simps [simp del]

text \<open>\<open>Parser.parse\<close> (lines 213-221): tokens left after the expression are an error.\<close>

definition Parser_parse :: "token list \<Rightarrow> error + AlgExpr" where
  "Parser_parse tokens =
     (case parseAddSub tokens of
        Inl err \<Rightarrow> Inl err
      | Inr (result, rest) \<Rightarrow>
          if rest \<noteq> [] then Inl UnexpectedTokensAfterExpression else Inr result)"

definition parseExpression :: "string \<Rightarrow> error + AlgExpr" where
  "parseExpression expression =
     (case tokenize expression of
        Inl err \<Rightarrow> Inl err
      | Inr tokens \<Rightarrow> Parser_parse tokens)"

section \<open>The equivalence checker (base.ts, lines 311-400)\<close>

text \<open>
  A \<open>Set<string>\<close> keeps its elements in the order of their first insertion, and
  \<open>forEach\<close> visits them in that order: the set is a list without duplicates.
\<close>

definition setAdd :: "string list \<Rightarrow> string \<Rightarrow> string list" where
  "setAdd vars name = (if name \<in> set vars then vars else vars @ [name])"

fun traverse :: "AlgExpr \<Rightarrow> string list \<Rightarrow> string list" where
  "traverse (Var name) vars = setAdd vars name"
| "traverse (Neg a) vars = traverse a vars"
| "traverse (Add a b) vars = traverse b (traverse a vars)"
| "traverse (Sub a b) vars = traverse b (traverse a vars)"
| "traverse (Mul a b) vars = traverse b (traverse a vars)"
| "traverse (Div a b) vars = traverse b (traverse a vars)"
| "traverse (IntV v) vars = vars"

definition getVariablesSet :: "AlgExpr \<Rightarrow> string list" where
  "getVariablesSet expr = traverse expr []"

fun substituteVariables :: "(string \<rightharpoonup> int) \<Rightarrow> AlgExpr \<Rightarrow> error + AlgExpr" where
  "substituteVariables varMap (Var name) =
     (case varMap name of
        None \<Rightarrow> Inl (UndefinedVariableValue name)
      | Some v \<Rightarrow> Inr (IntV v))"
| "substituteVariables varMap (Neg a) =
     (case substituteVariables varMap a of
        Inl err \<Rightarrow> Inl err
      | Inr a' \<Rightarrow> Inr (Neg a'))"
| "substituteVariables varMap (Add a b) =
     (case substituteVariables varMap a of
        Inl err \<Rightarrow> Inl err
      | Inr a' \<Rightarrow>
          (case substituteVariables varMap b of
             Inl err \<Rightarrow> Inl err
           | Inr b' \<Rightarrow> Inr (Add a' b')))"
| "substituteVariables varMap (Sub a b) =
     (case substituteVariables varMap a of
        Inl err \<Rightarrow> Inl err
      | Inr a' \<Rightarrow>
          (case substituteVariables varMap b of
             Inl err \<Rightarrow> Inl err
           | Inr b' \<Rightarrow> Inr (Sub a' b')))"
| "substituteVariables varMap (Mul a b) =
     (case substituteVariables varMap a of
        Inl err \<Rightarrow> Inl err
      | Inr a' \<Rightarrow>
          (case substituteVariables varMap b of
             Inl err \<Rightarrow> Inl err
           | Inr b' \<Rightarrow> Inr (Mul a' b')))"
| "substituteVariables varMap (Div a b) =
     (case substituteVariables varMap a of
        Inl err \<Rightarrow> Inl err
      | Inr a' \<Rightarrow>
          (case substituteVariables varMap b of
             Inl err \<Rightarrow> Inl err
           | Inr b' \<Rightarrow> Inr (Div a' b')))"
| "substituteVariables varMap (IntV v) = Inr (IntV v)"

text \<open>
  The folded value of a tree. \<open>None\<close> is \<open>NaN\<close>, which every arithmetic operation passes
  on; the other values are taken as exact rationals, without the rounding of the host. A
  denominator that is \<open>NaN\<close> is not \<open>=== 0\<close>, and the quotient by it is \<open>NaN\<close> again.
\<close>

fun getComputedValue :: "AlgExpr \<Rightarrow> rat option" where
  "getComputedValue (IntV v) = Some (of_int v)"
| "getComputedValue (Neg a) = map_option uminus (getComputedValue a)"
| "getComputedValue (Add a b) =
     (case (getComputedValue a, getComputedValue b) of
        (Some x, Some y) \<Rightarrow> Some (x + y)
      | _ \<Rightarrow> None)"
| "getComputedValue (Sub a b) =
     (case (getComputedValue a, getComputedValue b) of
        (Some x, Some y) \<Rightarrow> Some (x - y)
      | _ \<Rightarrow> None)"
| "getComputedValue (Mul a b) =
     (case (getComputedValue a, getComputedValue b) of
        (Some x, Some y) \<Rightarrow> Some (x * y)
      | _ \<Rightarrow> None)"
| "getComputedValue (Div a b) =
     (case getComputedValue b of
        None \<Rightarrow> None
      | Some denom \<Rightarrow>
          if denom = 0 then None
          else (case getComputedValue a of
                  None \<Rightarrow> None
                | Some x \<Rightarrow> Some (x / denom)))"
| "getComputedValue (Var name) = None"

definition iterations :: nat where
  "iterations = 10"

definition rangeV :: int where
  "rangeV = 100"

text \<open>
  The random source is the sequence \<open>rnd\<close> of the results of \<open>Math.random()\<close>, read
  through a counter \<open>k\<close> of the calls made so far. \<open>assignVariables\<close> is the
  \<open>vars.forEach\<close> of lines 378-380. The product under \<open>Math.floor\<close> is the exact one,
  where the host rounds it.
\<close>

fun assignVariables ::
  "(nat \<Rightarrow> rat) \<Rightarrow> string list \<Rightarrow> (string \<rightharpoonup> int) \<Rightarrow> nat \<Rightarrow> (string \<rightharpoonup> int) \<times> nat" where
  "assignVariables rnd [] varMap k = (varMap, k)"
| "assignVariables rnd (v # vs) varMap k =
     assignVariables rnd vs (varMap(v \<mapsto> \<lfloor>rnd k * of_int rangeV\<rfloor> - rangeV div 2)) (Suc k)"

text \<open>
  One pass through the body of the \<open>for\<close> loop (lines 377-396): \<open>Inr False\<close> when the body
  returns false, \<open>Inr True\<close> when the loop goes on. The difference of the two values and
  its comparison with the tolerance are exact, where the host computes them on
  floating-point numbers.
\<close>

definition trial :: "(string \<rightharpoonup> int) \<Rightarrow> AlgExpr \<Rightarrow> AlgExpr \<Rightarrow> error + bool" where
  "trial varMap expr1 expr2 =
     (case substituteVariables varMap expr1 of
        Inl err \<Rightarrow> Inl err
      | Inr substitutedExpr1 \<Rightarrow>
     (case substituteVariables varMap expr2 of
        Inl err \<Rightarrow> Inl err
      | Inr substitutedExpr2 \<Rightarrow>
     (case evaluateExpression substitutedExpr1 of
        Inl err \<Rightarrow> Inl err
      | Inr evaluatedExpr1 \<Rightarrow>
     (case evaluateExpression substitutedExpr2 of
        Inl err \<Rightarrow> Inl err
      | Inr evaluatedExpr2 \<Rightarrow>
     (case (getComputedValue evaluatedExpr1, getComputedValue evaluatedExpr2) of
        (Some val1, Some val2) \<Rightarrow>
          if \<bar>val1 - val2\<bar> > 1 / 10000 then Inr False else Inr True
      | _ \<Rightarrow> Inr True)))))"

function trialLoop ::
  "(nat \<Rightarrow> rat) \<Rightarrow> string list \<Rightarrow> AlgExpr \<Rightarrow> AlgExpr \<Rightarrow> nat \<Rightarrow> nat \<Rightarrow> error + bool" where
  "trialLoop rnd vars expr1 expr2 i k =
     (if i < iterations then
        (case assignVariables rnd vars Map.empty k of
           (varMap, k') \<Rightarrow>
             (case trial varMap expr1 expr2 of
                Inl err \<Rightarrow> Inl err
              | Inr False \<Rightarrow> Inr False
              | Inr True \<Rightarrow> trialLoop rnd vars expr1 expr2 (Suc i) k'))
      else Inr True)"
  by pat_completeness auto
termination
  by (relation "measure (\<lambda>(rnd, vars, expr1, expr2, i, k). iterations - i)") auto

declare trialLoop.simps [simp del]

definition areExpressionsEquivalent :: "(nat \<Rightarrow> rat) \<Rightarrow> AlgExpr \<Rightarrow> AlgExpr \<Rightarrow> error + bool" where
  "areExpressionsEquivalent rnd expr1 expr2 =
     (let vars1 = getVariablesSet expr1;
          vars2 = getVariablesSet expr2;
          vars = foldl setAdd [] (vars1 @ vars2)
      in trialLoop rnd vars expr1 expr2 0 0)"

section \<open>Vocabulary of the statements\<close>

text \<open>
  The subtrees of a tree, the tree itself first. The predicates below say what the
  specification says of the trees the evaluator returns.
\<close>

fun subtrees :: "AlgExpr \<Rightarrow> AlgExpr list" where
  "subtrees (IntV v) = [IntV v]"
| "subtrees (Var name) = [Var name]"
| "subtrees (Add a b) = Add a b # subtrees a @ subtrees b"
| "subtrees (Sub a b) = Sub a b # subtrees a @ subtrees b"
| "subtrees (Mul a b) = Mul a b # subtrees a @ subtrees b"
| "subtrees (Div a b) = Div a b # subtrees a @ subtrees b"
| "subtrees (Neg a) = Neg a # subtrees a"

fun isNegNeg :: "AlgExpr \<Rightarrow> bool" where
  "isNegNeg (Neg (Neg a)) = True"
| "isNegNeg e = False"

fun isNegativeInt :: "AlgExpr \<Rightarrow> bool" where
  "isNegativeInt (IntV v) = (v < 0)"
| "isNegativeInt e = False"

fun standardNumber :: "AlgExpr \<Rightarrow> bool" where
  "standardNumber (IntV n) = (0 \<le> n)"
| "standardNumber (Neg (IntV n)) = (0 < n)"
| "standardNumber e = False"

definition noNegNeg :: "AlgExpr \<Rightarrow> bool" where
  "noNegNeg r = (\<forall>t \<in> set (subtrees r). \<not> isNegNeg t)"

text \<open>
  Standardized form as the specification words it: no \<open>Neg (Neg _)\<close>, no negative \<open>Int\<close>,
  every numeric subtree \<open>Int n\<close> with \<open>n \<ge> 0\<close> or \<open>Neg (Int n)\<close> with \<open>n > 0\<close>.
\<close>

definition standardized :: "AlgExpr \<Rightarrow> bool" where
  "standardized r =
     (\<forall>t \<in> set (subtrees r). \<not> isNegNeg t \<and> \<not> isNegativeInt t \<and> (isNumber t \<longrightarrow> standardNumber t))"

definition nonNegativeInts :: "AlgExpr \<Rightarrow> bool" where
  "nonNegativeInts e = (\<forall>t \<in> set (subtrees e). \<not> isNegativeInt t)"

text \<open>A tree that the evaluator leaves as it is.\<close>

fun isNeg :: "AlgExpr \<Rightarrow> bool" where
  "isNeg (Neg a) = True"
| "isNeg e = False"

fun normalForm :: "AlgExpr \<Rightarrow> bool" where
  "normalForm (IntV v) = True"
| "normalForm (Var name) = True"
| "normalForm (Add a b) = (normalForm a \<and> normalForm b \<and> \<not> (isNumber a \<and> isNumber b))"
| "normalForm (Sub a b) = (normalForm a \<and> normalForm b \<and> \<not> (isNumber a \<and> isNumber b))"
| "normalForm (Mul a b) = (normalForm a \<and> normalForm b \<and> \<not> (isNumber a \<and> isNumber b))"
| "normalForm (Div a b) = (normalForm a \<and> normalForm b \<and> combineDiv a b = Inr (Div a b))"
| "normalForm (Neg a) = (normalForm a \<and> \<not> isNeg a)"

text \<open>
  The numeric value of a node as the specification words it: a node is numeric when it is
  \<open>Int\<close> or \<open>Neg (Int)\<close>, and its value is then \<open>value\<close> or \<open>-value\<close>. The source's
  \<open>isNumber\<close> and \<open>getValue\<close> are compared with it.
\<close>

fun numericValue :: "AlgExpr \<Rightarrow> int option" where
  "numericValue (IntV v) = Some v"
| "numericValue (Neg (IntV v)) = Some (- v)"
| "numericValue e = None"

text \<open>
  The condition of the specification under which a \<open>Div\<close> node collapses: both evaluated
  children are numeric, the divisor's value is not zero, and it divides the dividend's
  value exactly.
\<close>

definition divCollapses :: "AlgExpr \<Rightarrow> AlgExpr \<Rightarrow> bool" where
  "divCollapses left right =
     (case (numericValue left, numericValue right) of
        (Some x, Some y) \<Rightarrow> y \<noteq> 0 \<and> y dvd x
      | _ \<Rightarrow> False)"

text \<open>
  The tokens of the rendering of a tree: a leaf is one token, an operator node is enclosed
  in parentheses.
\<close>

fun toks :: "AlgExpr \<Rightarrow> token list" where
  "toks (IntV v) = [TNumber v]"
| "toks (Var name) = [TVar name]"
| "toks (Add a b) = TLParen # toks a @ TOp Plus # toks b @ [TRParen]"
| "toks (Sub a b) = TLParen # toks a @ TOp Minus # toks b @ [TRParen]"
| "toks (Mul a b) = TLParen # toks a @ TOp Times # toks b @ [TRParen]"
| "toks (Div a b) = TLParen # toks a @ TOp Slash # toks b @ [TRParen]"
| "toks (Neg a) = TLParen # TOp Minus # toks a @ [TRParen]"

text \<open>Whether the loop of \<open>parseMulDiv\<close>, of \<open>parseAddSub\<close>, goes round once more.\<close>

fun mulDivContinues :: "token list \<Rightarrow> bool" where
  "mulDivContinues (TOp Times # rest) = True"
| "mulDivContinues (TOp Slash # rest) = True"
| "mulDivContinues ts = False"

fun addSubContinues :: "token list \<Rightarrow> bool" where
  "addSubContinues (TOp Plus # rest) = True"
| "addSubContinues (TOp Minus # rest) = True"
| "addSubContinues ts = False"

text \<open>The tokens \<open>ts\<close> pushed before what the rest of the input gives.\<close>

definition prependTokens :: "token list \<Rightarrow> error + token list \<Rightarrow> error + token list" where
  "prependTokens ts res = (case res of Inl err \<Rightarrow> Inl err | Inr tokens \<Rightarrow> Inr (ts @ tokens))"

text \<open>An input that does not go on with a digit or a letter.\<close>

fun delimited :: "string \<Rightarrow> bool" where
  "delimited [] = True"
| "delimited (c # cs) = (\<not> isDigit c \<and> \<not> isLetter c)"

text \<open>
  An integer re-tokenizes from its rendering: the tokenizer reads what \<open>toStr\<close> prints
  for it back as the one number token that carries the integer. The \<open>Int\<close> leaves of a
  tree are non-negative integers that re-tokenize.
\<close>

definition retokenizes :: "(int \<Rightarrow> string) \<Rightarrow> int \<Rightarrow> bool" where
  "retokenizes toStr v = (tokenize (toStr v) = Inr [TNumber v])"

fun isPlainInt :: "(int \<Rightarrow> string) \<Rightarrow> AlgExpr \<Rightarrow> bool" where
  "isPlainInt toStr (IntV v) = (0 \<le> v \<and> retokenizes toStr v)"
| "isPlainInt toStr e = True"

definition plainInts :: "(int \<Rightarrow> string) \<Rightarrow> AlgExpr \<Rightarrow> bool" where
  "plainInts toStr e = (\<forall>t \<in> set (subtrees e). isPlainInt toStr t)"

text \<open>
  The \<open>Int\<close> leaves of a tree are non-negative integers below \<open>2^53\<close>, the range in
  which the host prints the decimal digits of an integer.
\<close>

fun isSafeInt :: "AlgExpr \<Rightarrow> bool" where
  "isSafeInt (IntV v) = (0 \<le> v \<and> v < 2 ^ 53)"
| "isSafeInt e = True"

definition safeInts :: "AlgExpr \<Rightarrow> bool" where
  "safeInts e = (\<forall>t \<in> set (subtrees e). isSafeInt t)"

text \<open>The names of the variables of a tree are non-empty runs of ASCII letters.\<close>

fun isWordVar :: "AlgExpr \<Rightarrow> bool" where
  "isWordVar (Var name) = (name \<noteq> [] \<and> (\<forall>c \<in> set name. isLetter c))"
| "isWordVar e = True"

definition letterNames :: "AlgExpr \<Rightarrow> bool" where
  "letterNames e = (\<forall>t \<in> set (subtrees e). isWordVar t)"

text \<open>The node a binary operator builds, and the precedence level of the operator.\<close>

fun binary :: "opchar \<Rightarrow> AlgExpr \<Rightarrow> AlgExpr \<Rightarrow> AlgExpr" where
  "binary Plus = Add"
| "binary Minus = Sub"
| "binary Times = Mul"
| "binary Slash = Div"

fun precedence :: "opchar \<Rightarrow> nat" where
  "precedence Plus = 1"
| "precedence Minus = 1"
| "precedence Times = 2"
| "precedence Slash = 2"

text \<open>
  The grammar as the specification writes it, over tokens, the operators left to right:
  \<^verbatim>\<open>AddSub := MulDiv (('+' | '-') MulDiv)*\<close>,
  \<^verbatim>\<open>MulDiv := Primary (('*' | '/') Primary)*\<close>,
  \<^verbatim>\<open>Primary := '-' Primary | NUMBER | VAR | '(' AddSub ')'\<close>.
  \<open>grammarAddSubTail\<close> and \<open>grammarMulDivTail\<close> are the two starred groups.
\<close>

inductive
  grammarAddSub :: "token list \<Rightarrow> bool" and
  grammarAddSubTail :: "token list \<Rightarrow> bool" and
  grammarMulDiv :: "token list \<Rightarrow> bool" and
  grammarMulDivTail :: "token list \<Rightarrow> bool" and
  grammarPrimary :: "token list \<Rightarrow> bool"
where
  AddSub: "grammarMulDiv m \<Longrightarrow> grammarAddSubTail t \<Longrightarrow> grammarAddSub (m @ t)"
| AddSubEnd: "grammarAddSubTail []"
| AddSubPlus: "grammarMulDiv m \<Longrightarrow> grammarAddSubTail t \<Longrightarrow> grammarAddSubTail (TOp Plus # m @ t)"
| AddSubMinus: "grammarMulDiv m \<Longrightarrow> grammarAddSubTail t \<Longrightarrow> grammarAddSubTail (TOp Minus # m @ t)"
| MulDiv: "grammarPrimary p \<Longrightarrow> grammarMulDivTail t \<Longrightarrow> grammarMulDiv (p @ t)"
| MulDivEnd: "grammarMulDivTail []"
| MulDivTimes: "grammarPrimary p \<Longrightarrow> grammarMulDivTail t \<Longrightarrow> grammarMulDivTail (TOp Times # p @ t)"
| MulDivSlash: "grammarPrimary p \<Longrightarrow> grammarMulDivTail t \<Longrightarrow> grammarMulDivTail (TOp Slash # p @ t)"
| PrimaryMinus: "grammarPrimary p \<Longrightarrow> grammarPrimary (TOp Minus # p)"
| PrimaryNumber: "grammarPrimary [TNumber v]"
| PrimaryVar: "grammarPrimary [TVar name]"
| PrimaryParen: "grammarAddSub a \<Longrightarrow> grammarPrimary (TLParen # a @ [TRParen])"

text \<open>The characters the tokenizer accepts.\<close>

definition acceptedChar :: "char \<Rightarrow> bool" where
  "acceptedChar c =
     (isSpace c \<or> isDigit c \<or> isLetter c \<or> isOperator c \<or> c = CHR ''('' \<or> c = CHR '')'')"

text \<open>
  The failure kind \<open>SyntaxError\<close> of the specification: what the tokenizer and the parser
  raise.
\<close>

fun isSyntaxError :: "error \<Rightarrow> bool" where
  "isSyntaxError (UnexpectedCharacter c) = True"
| "isSyntaxError UnexpectedEndOfInput = True"
| "isSyntaxError ExpectedClosingParenthesis = True"
| "isSyntaxError (UnexpectedToken t) = True"
| "isSyntaxError UnexpectedTokensAfterExpression = True"
| "isSyntaxError ExpressionIsNotANumber = False"
| "isSyntaxError (UndefinedVariableValue name) = False"

section \<open>The evaluator never raises\<close>

lemma isNumber_getValue: "isNumber e \<Longrightarrow> \<exists>v. getValue e = Inr v"
  by (induction e rule: isNumber.induct) simp_all

lemma combineArith_total: "\<exists>x. combineArith f mk l r = Inr x"
proof (cases "isNumber l \<and> isNumber r")
  case True
  then obtain x y where "getValue l = Inr x" "getValue r = Inr y"
    using isNumber_getValue by blast
  with True show ?thesis by (simp add: combineArith_def)
next
  case False
  then show ?thesis by (auto simp: combineArith_def)
qed

lemma combineDiv_total: "\<exists>x. combineDiv l r = Inr x"
proof (cases "isNumber l \<and> isNumber r")
  case True
  then obtain x y where "getValue l = Inr x" "getValue r = Inr y"
    using isNumber_getValue by blast
  with True show ?thesis by (simp add: combineDiv_def)
next
  case False
  then show ?thesis by (auto simp: combineDiv_def)
qed

lemma evaluateExpression_total: "\<exists>r. evaluateExpression e = Inr r"
proof (induction e)
  case (Add a b)
  then obtain l r where "evaluateExpression a = Inr l" "evaluateExpression b = Inr r" by blast
  then show ?case using combineArith_total[of "(+)" Add l r] by simp
next
  case (Sub a b)
  then obtain l r where "evaluateExpression a = Inr l" "evaluateExpression b = Inr r" by blast
  then show ?case using combineArith_total[of "(-)" Sub l r] by simp
next
  case (Mul a b)
  then obtain l r where "evaluateExpression a = Inr l" "evaluateExpression b = Inr r" by blast
  then show ?case using combineArith_total[of "(*)" Mul l r] by simp
next
  case (Div a b)
  then obtain l r where "evaluateExpression a = Inr l" "evaluateExpression b = Inr r" by blast
  then show ?case using combineDiv_total[of l r] by simp
next
  case (Neg a)
  then obtain x where "evaluateExpression a = Inr x" by blast
  then show ?case by (cases x) simp_all
qed simp_all

section \<open>The evaluator returns normal forms\<close>

lemma normalForm_fixed: "normalForm e \<Longrightarrow> evaluateExpression e = Inr e"
  by (induction e) (auto simp: combineArith_def split: AlgExpr.splits)

lemma normalForm_standardizeNumber: "normalForm (standardizeNumber n)"
  by (simp add: standardizeNumber_def)

lemma isNumber_standardizeNumber: "isNumber (standardizeNumber n)"
  by (simp add: standardizeNumber_def)

lemma combineArith_cases:
  "combineArith f mk l r = Inr x \<Longrightarrow>
     (isNumber l \<and> isNumber r \<and> (\<exists>n. x = standardizeNumber n)) \<or>
     (\<not> (isNumber l \<and> isNumber r) \<and> x = mk l r)"
  by (auto simp: combineArith_def split: if_splits sum.splits)

lemma combineDiv_cases:
  "combineDiv l r = Inr x \<Longrightarrow> (\<exists>n. x = standardizeNumber n) \<or> (x = Div l r)"
  by (auto simp: combineDiv_def split: if_splits sum.splits)

lemma normalForm_evaluate: "evaluateExpression e = Inr r \<Longrightarrow> normalForm r"
proof (induction e arbitrary: r)
  case (Add a b)
  then obtain l r' where lr: "evaluateExpression a = Inr l" "evaluateExpression b = Inr r'"
    and c: "combineArith (+) Add l r' = Inr r"
    by (auto split: sum.splits)
  from Add.IH lr have "normalForm l" "normalForm r'" by blast+
  with combineArith_cases[OF c] show ?case
    by (auto simp: normalForm_standardizeNumber)
next
  case (Sub a b)
  then obtain l r' where lr: "evaluateExpression a = Inr l" "evaluateExpression b = Inr r'"
    and c: "combineArith (-) Sub l r' = Inr r"
    by (auto split: sum.splits)
  from Sub.IH lr have "normalForm l" "normalForm r'" by blast+
  with combineArith_cases[OF c] show ?case
    by (auto simp: normalForm_standardizeNumber)
next
  case (Mul a b)
  then obtain l r' where lr: "evaluateExpression a = Inr l" "evaluateExpression b = Inr r'"
    and c: "combineArith (*) Mul l r' = Inr r"
    by (auto split: sum.splits)
  from Mul.IH lr have "normalForm l" "normalForm r'" by blast+
  with combineArith_cases[OF c] show ?case
    by (auto simp: normalForm_standardizeNumber)
next
  case (Div a b)
  then obtain l r' where lr: "evaluateExpression a = Inr l" "evaluateExpression b = Inr r'"
    and c: "combineDiv l r' = Inr r"
    by (auto split: sum.splits)
  from Div.IH lr have "normalForm l" "normalForm r'" by blast+
  with combineDiv_cases[OF c] c show ?case
    by (auto simp: normalForm_standardizeNumber)
next
  case (Neg a)
  then obtain x where x: "evaluateExpression a = Inr x" by (auto split: sum.splits)
  with Neg.IH have "normalForm x" by blast
  with Neg.prems x show ?case by (cases x) auto
qed auto

section \<open>Properties the evaluator preserves\<close>

lemma noNegNeg_simps:
  "noNegNeg (IntV v)"
  "noNegNeg (Var name)"
  "noNegNeg (Add a b) = (noNegNeg a \<and> noNegNeg b)"
  "noNegNeg (Sub a b) = (noNegNeg a \<and> noNegNeg b)"
  "noNegNeg (Mul a b) = (noNegNeg a \<and> noNegNeg b)"
  "noNegNeg (Div a b) = (noNegNeg a \<and> noNegNeg b)"
  "noNegNeg (Neg a) = (\<not> isNeg a \<and> noNegNeg a)"
  by (cases a; auto simp: noNegNeg_def)+

lemma nonNegativeInts_simps:
  "nonNegativeInts (IntV v) = (0 \<le> v)"
  "nonNegativeInts (Var name)"
  "nonNegativeInts (Add a b) = (nonNegativeInts a \<and> nonNegativeInts b)"
  "nonNegativeInts (Sub a b) = (nonNegativeInts a \<and> nonNegativeInts b)"
  "nonNegativeInts (Mul a b) = (nonNegativeInts a \<and> nonNegativeInts b)"
  "nonNegativeInts (Div a b) = (nonNegativeInts a \<and> nonNegativeInts b)"
  "nonNegativeInts (Neg a) = nonNegativeInts a"
  by (auto simp: nonNegativeInts_def)

lemma noNegNeg_standardizeNumber: "noNegNeg (standardizeNumber n)"
  by (simp add: standardizeNumber_def noNegNeg_simps)

lemma nonNegativeInts_standardizeNumber: "nonNegativeInts (standardizeNumber n)"
  by (simp add: standardizeNumber_def nonNegativeInts_simps)

text \<open>What holds of both children and of every collapsed number holds of the result.\<close>

lemma evaluate_preserves:
  assumes std: "\<And>n. P (standardizeNumber n)"
    and bin: "\<And>a b. P a \<Longrightarrow> P b \<Longrightarrow> P (Add a b) \<and> P (Sub a b) \<and> P (Mul a b) \<and> P (Div a b)"
    and neg: "\<And>a. P a \<Longrightarrow> \<not> isNeg a \<Longrightarrow> P (Neg a)"
    and inner: "\<And>a. P (Neg a) \<Longrightarrow> P a"
    and leaf: "\<And>v. Q (IntV v) \<Longrightarrow> P (IntV v)" "\<And>name. P (Var name)"
    and sub: "\<And>a b. Q (Add a b) \<or> Q (Sub a b) \<or> Q (Mul a b) \<or> Q (Div a b) \<Longrightarrow> Q a \<and> Q b"
       "\<And>a. Q (Neg a) \<Longrightarrow> Q a"
  shows "evaluateExpression e = Inr r \<Longrightarrow> Q e \<Longrightarrow> P r"
proof (induction e arbitrary: r)
  case (IntV v)
  then show ?case using leaf by auto
next
  case (Var name)
  then show ?case using leaf by auto
next
  case (Add a b)
  then obtain l r' where lr: "evaluateExpression a = Inr l" "evaluateExpression b = Inr r'"
    and c: "combineArith (+) Add l r' = Inr r"
    by (auto split: sum.splits)
  from Add.prems(2) sub(1)[of a b] have "Q a" "Q b" by blast+
  with Add.IH lr have "P l" "P r'" by blast+
  with combineArith_cases[OF c] std bin show ?case by blast
next
  case (Sub a b)
  then obtain l r' where lr: "evaluateExpression a = Inr l" "evaluateExpression b = Inr r'"
    and c: "combineArith (-) Sub l r' = Inr r"
    by (auto split: sum.splits)
  from Sub.prems(2) sub(1)[of a b] have "Q a" "Q b" by blast+
  with Sub.IH lr have "P l" "P r'" by blast+
  with combineArith_cases[OF c] std bin show ?case by blast
next
  case (Mul a b)
  then obtain l r' where lr: "evaluateExpression a = Inr l" "evaluateExpression b = Inr r'"
    and c: "combineArith (*) Mul l r' = Inr r"
    by (auto split: sum.splits)
  from Mul.prems(2) sub(1)[of a b] have "Q a" "Q b" by blast+
  with Mul.IH lr have "P l" "P r'" by blast+
  with combineArith_cases[OF c] std bin show ?case by blast
next
  case (Div a b)
  then obtain l r' where lr: "evaluateExpression a = Inr l" "evaluateExpression b = Inr r'"
    and c: "combineDiv l r' = Inr r"
    by (auto split: sum.splits)
  from Div.prems(2) sub(1)[of a b] have "Q a" "Q b" by blast+
  with Div.IH lr have "P l" "P r'" by blast+
  with combineDiv_cases[OF c] std bin show ?case by blast
next
  case (Neg a)
  then obtain x where x: "evaluateExpression a = Inr x" by (auto split: sum.splits)
  from Neg.prems(2) sub(2) have "Q a" by blast
  with Neg.IH x have px: "P x" by blast
  show ?case
  proof (cases "isNeg x")
    case True
    then obtain y where "x = Neg y" by (cases x) auto
    with Neg.prems(1) x px inner show ?thesis by auto
  next
    case False
    then have "evaluateExpression (Neg a) = Inr (Neg x)" using x by (cases x) auto
    with Neg.prems(1) px False neg show ?thesis by auto
  qed
qed

lemma noNegNeg_evaluate: "evaluateExpression e = Inr r \<Longrightarrow> noNegNeg r"
  by (rule evaluate_preserves[where P = noNegNeg and Q = "\<lambda>e. True"])
     (simp_all add: noNegNeg_simps noNegNeg_standardizeNumber)

lemma nonNegativeInts_evaluate:
  "evaluateExpression e = Inr r \<Longrightarrow> nonNegativeInts e \<Longrightarrow> nonNegativeInts r"
  by (rule evaluate_preserves[where P = nonNegativeInts and Q = nonNegativeInts])
     (auto simp: nonNegativeInts_simps nonNegativeInts_standardizeNumber)

text \<open>
  A zero under a negation. The branches that collapse give \<open>Int 0\<close> for a result that is
  zero; the \<open>Neg\<close> branch wraps its evaluated argument without looking at its value, so
  the negation of a zero stays \<open>Neg (Int 0)\<close>.
\<close>

lemma negated_zero:
  "evaluateExpression (Sub (IntV 1) (IntV 1)) = Inr (IntV 0)"
  "evaluateExpression (Sub (IntV 0) (Sub (IntV 1) (IntV 1))) = Inr (IntV 0)"
  "evaluateExpression (Neg (Sub (IntV 1) (IntV 1))) = Inr (Neg (IntV 0))"
  "parseExpression ''-0'' = Inr (Neg (IntV 0))"
  "evaluateExpression (Neg (IntV 0)) = Inr (Neg (IntV 0))"
  by code_simp+

section \<open>What a collapse computes\<close>

text \<open>
  The remainder \<open>%\<close> is zero exactly when the divisor divides the dividend, and then the
  truncating quotient is the exact one.
\<close>

lemma smod_zero_iff_dvd: "(x smod y = 0) = (y dvd x)" for x y :: int
proof -
  have "(x smod y = 0) = (\<bar>x\<bar> mod \<bar>y\<bar> = 0)"
    by (auto simp: signed_modulo_int_def sgn_if)
  also have "\<dots> = (\<bar>y\<bar> dvd \<bar>x\<bar>)"
    by (simp add: dvd_eq_mod_eq_0)
  also have "\<dots> = (y dvd x)"
    by simp
  finally show ?thesis .
qed

lemma sdiv_exact: "y dvd x \<Longrightarrow> x sdiv y = x div y" for x y :: int
  by (simp add: signed_divide_int_eq_divide_int)

text \<open>The source's \<open>isNumber\<close> and \<open>getValue\<close> against the specification's numeric value.\<close>

lemma numericValue_None: "(numericValue t = None) = (\<not> isNumber t)"
  by (cases t rule: numericValue.cases) simp_all

lemma numericValue_getValue: "(numericValue t = Some x) = (isNumber t \<and> getValue t = Inr x)"
  by (cases t rule: numericValue.cases) auto

lemma numericValue_standardizeNumber: "numericValue (standardizeNumber q) = Some q"
  by (simp add: standardizeNumber_def)

lemma standardNumber_standardizeNumber: "standardNumber (standardizeNumber q)"
  by (simp add: standardizeNumber_def)

lemma standardNumber_unique:
  "numericValue res = Some q \<Longrightarrow> standardNumber res \<Longrightarrow>
     res = (if 0 \<le> q then IntV q else Neg (IntV (- q)))"
  by (cases res rule: numericValue.cases) auto

lemma combineDiv_collapse:
  assumes "numericValue l = Some x" "numericValue r = Some y" "y \<noteq> 0" "y dvd x"
  shows "combineDiv l r = Inr (standardizeNumber (x div y))"
  using assms by (simp add: numericValue_getValue combineDiv_def smod_zero_iff_dvd sdiv_exact)

lemma combineDiv_keep:
  assumes "\<not> divCollapses l r"
  shows "combineDiv l r = Inr (Div l r)"
proof (cases "isNumber l \<and> isNumber r")
  case True
  then obtain x y where xy: "getValue l = Inr x" "getValue r = Inr y"
    using isNumber_getValue by blast
  with True have "numericValue l = Some x" "numericValue r = Some y"
    by (simp_all add: numericValue_getValue)
  with True xy assms show ?thesis
    by (auto simp: combineDiv_def divCollapses_def smod_zero_iff_dvd)
next
  case False
  then show ?thesis by (auto simp: combineDiv_def)
qed

lemma combineDiv_spec:
  "\<exists>res. combineDiv l r = Inr res \<and>
     (isNumber res \<longleftrightarrow> divCollapses l r) \<and>
     (divCollapses l r \<longrightarrow>
        (\<exists>x y q. numericValue l = Some x \<and> numericValue r = Some y \<and> y \<noteq> 0 \<and> q * y = x \<and>
                 numericValue res = Some q \<and> standardNumber res)) \<and>
     (\<not> divCollapses l r \<longrightarrow> res = Div l r)"
proof (cases "divCollapses l r")
  case True
  then obtain x y where xy: "numericValue l = Some x" "numericValue r = Some y" "y \<noteq> 0" "y dvd x"
    by (auto simp: divCollapses_def split: option.splits)
  have "combineDiv l r = Inr (standardizeNumber (x div y))"
    using xy by (rule combineDiv_collapse)
  moreover have "(x div y) * y = x" using xy(4) by simp
  ultimately show ?thesis
    using True xy isNumber_standardizeNumber numericValue_standardizeNumber
      standardNumber_standardizeNumber by blast
next
  case False
  then show ?thesis using combineDiv_keep by simp
qed

section \<open>The parser on the tokens of a rendering\<close>

lemma parsePrimary_simps:
  "parsePrimary [] = Inl UnexpectedEndOfInput"
  "parsePrimary (TOp Minus # rest) =
     (case parsePrimary rest of Inl err \<Rightarrow> Inl err | Inr (expr, rest') \<Rightarrow> Inr (Neg expr, rest'))"
  "parsePrimary (TNumber v # rest) = Inr (IntV v, rest)"
  "parsePrimary (TVar name # rest) = Inr (Var name, rest)"
  "parsePrimary (TLParen # rest) =
     (case parseAddSub rest of
        Inl err \<Rightarrow> Inl err
      | Inr (expr, rest') \<Rightarrow>
          (case rest' of
             TRParen # rest'' \<Rightarrow> Inr (expr, rest'')
           | _ \<Rightarrow> Inl ExpectedClosingParenthesis))"
  "parsePrimary (TOp Plus # rest) = Inl (UnexpectedToken (TOp Plus))"
  "parsePrimary (TOp Times # rest) = Inl (UnexpectedToken (TOp Times))"
  "parsePrimary (TOp Slash # rest) = Inl (UnexpectedToken (TOp Slash))"
  "parsePrimary (TRParen # rest) = Inl (UnexpectedToken TRParen)"
  by (simp_all add: parsePrimary.simps)

lemma mulDivLoop_simps:
  "mulDivLoop left (TOp Times # rest) =
     (case parsePrimary rest of
        Inl err \<Rightarrow> Inl err
      | Inr (right, rest') \<Rightarrow> mulDivLoop (Mul left right) rest')"
  "mulDivLoop left (TOp Slash # rest) =
     (case parsePrimary rest of
        Inl err \<Rightarrow> Inl err
      | Inr (right, rest') \<Rightarrow> mulDivLoop (Div left right) rest')"
  "\<not> mulDivContinues ts \<Longrightarrow> mulDivLoop left ts = Inr (left, ts)"
    apply (simp add: mulDivLoop.simps)
   apply (simp add: mulDivLoop.simps)
  apply (cases ts rule: mulDivContinues.cases; simp add: mulDivLoop.simps)
  done

lemma addSubLoop_simps:
  "addSubLoop left (TOp Plus # rest) =
     (case parseMulDiv rest of
        Inl err \<Rightarrow> Inl err
      | Inr (right, rest') \<Rightarrow> addSubLoop (Add left right) rest')"
  "addSubLoop left (TOp Minus # rest) =
     (case parseMulDiv rest of
        Inl err \<Rightarrow> Inl err
      | Inr (right, rest') \<Rightarrow> addSubLoop (Sub left right) rest')"
  "\<not> addSubContinues ts \<Longrightarrow> addSubLoop left ts = Inr (left, ts)"
    apply (simp add: addSubLoop.simps)
   apply (simp add: addSubLoop.simps)
  apply (cases ts rule: addSubContinues.cases; simp add: addSubLoop.simps)
  done

lemma parsePrimary_toks: "parsePrimary (toks e @ rest) = Inr (e, rest)"
proof (induction e arbitrary: rest)
  case (Add a b)
  show ?case
    by (simp add: parsePrimary_simps parseAddSub.simps parseMulDiv.simps Add
        mulDivLoop_simps addSubLoop_simps)
next
  case (Sub a b)
  show ?case
    by (simp add: parsePrimary_simps parseAddSub.simps parseMulDiv.simps Sub
        mulDivLoop_simps addSubLoop_simps)
next
  case (Mul a b)
  show ?case
    by (simp add: parsePrimary_simps parseAddSub.simps parseMulDiv.simps Mul
        mulDivLoop_simps addSubLoop_simps)
next
  case (Div a b)
  show ?case
    by (simp add: parsePrimary_simps parseAddSub.simps parseMulDiv.simps Div
        mulDivLoop_simps addSubLoop_simps)
next
  case (Neg a)
  show ?case
    by (simp add: parsePrimary_simps parseAddSub.simps parseMulDiv.simps Neg
        mulDivLoop_simps addSubLoop_simps)
qed (simp_all add: parsePrimary_simps)

lemma Parser_parse_toks: "Parser_parse (toks e) = Inr e"
  using parsePrimary_toks[of e "[]"]
  by (simp add: Parser_parse_def parseAddSub.simps parseMulDiv.simps mulDivLoop_simps addSubLoop_simps)

section \<open>The tokenizer on a rendering\<close>

lemma prependTokens_simps [simp]:
  "prependTokens ts (Inl err) = Inl err"
  "prependTokens ts (Inr tokens) = Inr (ts @ tokens)"
  "prependTokens ts (prependTokens us res) = prependTokens (ts @ us) res"
  by (simp_all add: prependTokens_def split: sum.splits)

lemma tokenize_punctuation:
  "tokenize (CHR '' '' # cs) = tokenize cs"
  "tokenize (CHR ''('' # cs) = prependTokens [TLParen] (tokenize cs)"
  "tokenize (CHR '')'' # cs) = prependTokens [TRParen] (tokenize cs)"
  "tokenize (CHR ''+'' # cs) = prependTokens [TOp Plus] (tokenize cs)"
  "tokenize (CHR ''-'' # cs) = prependTokens [TOp Minus] (tokenize cs)"
  "tokenize (CHR ''*'' # cs) = prependTokens [TOp Times] (tokenize cs)"
  "tokenize (CHR ''/'' # cs) = prependTokens [TOp Slash] (tokenize cs)"
  by (simp_all add: isSpace_def isDigit_def isLetter_def isOperator_def operatorOf_def
      prependTokens_def split: sum.splits)

lemma delimited_punctuation [simp]:
  "delimited (CHR '' '' # cs)" "delimited (CHR '')'' # cs)"
  by (simp_all add: isDigit_def isLetter_def)

lemma run_append:
  assumes "\<forall>c \<in> set cs. P c" "case rest of [] \<Rightarrow> True | c # _ \<Rightarrow> \<not> P c"
  shows "takeWhile P (cs @ rest) = cs" "dropWhile P (cs @ rest) = rest"
  using assms by (cases rest; simp)+

lemma isLetter_not_other: "isLetter c \<Longrightarrow> \<not> isSpace c \<and> \<not> isDigit c"
  by (auto simp: isLetter_def isSpace_def isDigit_def)

lemma isDigit_not_space: "isDigit c \<Longrightarrow> \<not> isSpace c"
  by (auto simp: isSpace_def isDigit_def)

lemma tokenize_word:
  assumes "name \<noteq> []" "\<forall>c \<in> set name. isLetter c" "delimited rest"
  shows "tokenize (name @ rest) = prependTokens [TVar name] (tokenize rest)"
proof -
  from assms(1) obtain c cs where name: "name = c # cs" by (cases name) auto
  with assms(2) have c: "isLetter c" and cs: "\<forall>c \<in> set cs. isLetter c" by auto
  from assms(3) have "case rest of [] \<Rightarrow> True | c # _ \<Rightarrow> \<not> isLetter c"
    by (cases rest) auto
  from run_append[OF cs this] c isLetter_not_other[OF c] show ?thesis
    by (simp add: name prependTokens_def split: sum.splits)
qed

lemma digit_cases: "d < 10 \<Longrightarrow> d \<in> {0, 1, 2, 3, 4, 5, 6, 7, 8, 9 :: nat}"
  by auto

lemma digitChar_props:
  assumes "d < 10"
  shows "isDigit (digitChar d)" "digitValue (digitChar d) = int d"
  using digit_cases[OF assms] by (auto simp: digitChar_def isDigit_def digitValue_def)

lemma digitsOf_digits: "c \<in> set (digitsOf n) \<Longrightarrow> isDigit c"
  by (induction n rule: digitsOf.induct) (subst (asm) digitsOf.simps, auto simp: digitChar_props split: if_splits)

lemma digitsOf_nonempty: "digitsOf n \<noteq> []"
  by (subst digitsOf.simps) simp

lemma parseInt_snoc: "parseInt (cs @ [c]) = 10 * parseInt cs + digitValue c"
  by (simp add: parseInt_def)

lemma parseInt_digitsOf: "parseInt (digitsOf n) = int n"
proof (induction n rule: digitsOf.induct)
  case (1 n)
  show ?case
  proof (cases "n < 10")
    case True
    then show ?thesis
      by (subst digitsOf.simps) (simp add: parseInt_def digitChar_props)
  next
    case False
    with 1 have "parseInt (digitsOf (n div 10)) = int (n div 10)" by simp
    moreover have "10 * int (n div 10) + int (n mod 10) = int n" by presburger
    ultimately show ?thesis using False
      by (subst digitsOf.simps) (simp add: parseInt_snoc digitChar_props)
  qed
qed

lemma tokenize_number:
  assumes "delimited rest"
  shows "tokenize (digitsOf n @ rest) = prependTokens [TNumber (int n)] (tokenize rest)"
proof -
  obtain c cs where ds: "digitsOf n = c # cs"
    using digitsOf_nonempty[of n] by (cases "digitsOf n") auto
  have c: "isDigit c" and cs: "\<forall>c \<in> set cs. isDigit c"
    using digitsOf_digits[of _ n] by (auto simp: ds)
  from assms have "case rest of [] \<Rightarrow> True | c # _ \<Rightarrow> \<not> isDigit c"
    by (cases rest) auto
  from run_append[OF cs this] c isDigit_not_space[OF c] parseInt_digitsOf[of n]
  show ?thesis
    by (simp add: ds prependTokens_def split: sum.splits)
qed

lemma letterNames_simps:
  "letterNames (IntV v)"
  "letterNames (Var name) = (name \<noteq> [] \<and> (\<forall>c \<in> set name. isLetter c))"
  "letterNames (Add a b) = (letterNames a \<and> letterNames b)"
  "letterNames (Sub a b) = (letterNames a \<and> letterNames b)"
  "letterNames (Mul a b) = (letterNames a \<and> letterNames b)"
  "letterNames (Div a b) = (letterNames a \<and> letterNames b)"
  "letterNames (Neg a) = letterNames a"
  by (auto simp: letterNames_def)

text \<open>
  What follows an input that tokenizes does not change its tokens, when it does not go on
  with a digit or a letter.
\<close>

lemma run_delimited:
  assumes "case rest of [] \<Rightarrow> True | c # _ \<Rightarrow> \<not> P c"
  shows "takeWhile P (cs @ rest) = takeWhile P cs"
    and "dropWhile P (cs @ rest) = dropWhile P cs @ rest"
  using assms by (induction cs; cases rest; simp)+

lemma prependTokens_Nil [simp]: "prependTokens [] res = res"
  by (simp add: prependTokens_def split: sum.splits)

lemma tokenize_append:
  "tokenize s = Inr ts \<Longrightarrow> delimited rest \<Longrightarrow>
     tokenize (s @ rest) = prependTokens ts (tokenize rest)"
proof (induction s arbitrary: ts rule: tokenize.induct)
  case 1
  then show ?case by simp
next
  case (2 c cs)
  from "2.prems"(2) have digit: "case rest of [] \<Rightarrow> True | c # _ \<Rightarrow> \<not> isDigit c"
    and letter: "case rest of [] \<Rightarrow> True | c # _ \<Rightarrow> \<not> isLetter c"
    by (cases rest; simp)+
  consider (space) "isSpace c"
    | (digit) "\<not> isSpace c" "isDigit c"
    | (letter) "\<not> isSpace c" "\<not> isDigit c" "isLetter c"
    | (oper) "\<not> isSpace c" "\<not> isDigit c" "\<not> isLetter c" "isOperator c"
    | (lparen) "\<not> isSpace c" "\<not> isDigit c" "\<not> isLetter c" "\<not> isOperator c" "c = CHR ''(''"
    | (rparen) "\<not> isSpace c" "\<not> isDigit c" "\<not> isLetter c" "\<not> isOperator c" "c \<noteq> CHR ''(''"
        "c = CHR '')''"
    | (other) "\<not> isSpace c" "\<not> isDigit c" "\<not> isLetter c" "\<not> isOperator c" "c \<noteq> CHR ''(''"
        "c \<noteq> CHR '')''"
    by blast
  then show ?case
  proof cases
    case space
    with "2.prems" "2.IH"(1) show ?thesis by simp
  next
    case digit
    with "2.prems"(1) obtain ts' where ts': "tokenize (dropWhile isDigit cs) = Inr ts'"
      and ts: "ts = TNumber (parseInt (c # takeWhile isDigit cs)) # ts'"
      by (auto split: sum.splits)
    from "2.IH"(2)[OF digit ts' "2.prems"(2)] digit ts run_delimited[OF \<open>case rest of [] \<Rightarrow> True | c # _ \<Rightarrow> \<not> isDigit c\<close>, of cs]
    show ?thesis by (simp add: prependTokens_def split: sum.splits)
  next
    case letter
    with "2.prems"(1) obtain ts' where ts': "tokenize (dropWhile isLetter cs) = Inr ts'"
      and ts: "ts = TVar (c # takeWhile isLetter cs) # ts'"
      by (auto split: sum.splits)
    from "2.IH"(3)[OF letter ts' "2.prems"(2)] letter ts run_delimited[OF \<open>case rest of [] \<Rightarrow> True | c # _ \<Rightarrow> \<not> isLetter c\<close>, of cs]
    show ?thesis by (simp add: prependTokens_def split: sum.splits)
  next
    case oper
    with "2.prems"(1) obtain ts' where ts': "tokenize cs = Inr ts'"
      and ts: "ts = TOp (operatorOf c) # ts'"
      by (auto split: sum.splits)
    from "2.IH"(4)[OF oper ts' "2.prems"(2)] oper ts
    show ?thesis by (simp add: prependTokens_def split: sum.splits)
  next
    case lparen
    with "2.prems"(1) obtain ts' where ts': "tokenize cs = Inr ts'" and ts: "ts = TLParen # ts'"
      by (auto split: sum.splits)
    from "2.IH"(5)[OF lparen ts' "2.prems"(2)] lparen ts
    show ?thesis by (simp add: prependTokens_def split: sum.splits)
  next
    case rparen
    with "2.prems"(1) obtain ts' where ts': "tokenize cs = Inr ts'" and ts: "ts = TRParen # ts'"
      by (auto split: sum.splits)
    from "2.IH"(6)[OF rparen ts' "2.prems"(2)] rparen ts
    show ?thesis by (simp add: prependTokens_def split: sum.splits)
  next
    case other
    with "2.prems"(1) show ?thesis by simp
  qed
qed

lemma plainInts_simps:
  "plainInts toStr (IntV v) = (0 \<le> v \<and> retokenizes toStr v)"
  "plainInts toStr (Var name)"
  "plainInts toStr (Add a b) = (plainInts toStr a \<and> plainInts toStr b)"
  "plainInts toStr (Sub a b) = (plainInts toStr a \<and> plainInts toStr b)"
  "plainInts toStr (Mul a b) = (plainInts toStr a \<and> plainInts toStr b)"
  "plainInts toStr (Div a b) = (plainInts toStr a \<and> plainInts toStr b)"
  "plainInts toStr (Neg a) = plainInts toStr a"
  by (auto simp: plainInts_def)

lemma tokenize_render:
  "plainInts toStr e \<Longrightarrow> letterNames e \<Longrightarrow> delimited rest \<Longrightarrow>
     tokenize (renderExpression toStr e @ rest) = prependTokens (toks e) (tokenize rest)"
proof (induction e arbitrary: rest)
  case (IntV v)
  then have "tokenize (toStr v) = Inr [TNumber v]"
    by (simp add: plainInts_simps retokenizes_def)
  then show ?case
    using IntV.prems(3) by (simp add: tokenize_append)
next
  case (Var name)
  then show ?case
    using tokenize_word[of name rest] by (simp add: letterNames_simps)
next
  case (Add a b)
  then show ?case
    by (simp add: plainInts_simps letterNames_simps tokenize_punctuation del: tokenize.simps delimited.simps)
next
  case (Sub a b)
  then show ?case
    by (simp add: plainInts_simps letterNames_simps tokenize_punctuation del: tokenize.simps delimited.simps)
next
  case (Mul a b)
  then show ?case
    by (simp add: plainInts_simps letterNames_simps tokenize_punctuation del: tokenize.simps delimited.simps)
next
  case (Div a b)
  then show ?case
    by (simp add: plainInts_simps letterNames_simps tokenize_punctuation del: tokenize.simps delimited.simps)
next
  case (Neg a)
  then show ?case
    by (simp add: plainInts_simps letterNames_simps tokenize_punctuation del: tokenize.simps delimited.simps)
qed

lemma parse_render:
  assumes "plainInts toStr e" "letterNames e"
  shows "parseExpression (renderExpression toStr e) = Inr e"
  using tokenize_render[OF assms, of "[]"]
  by (simp add: parseExpression_def Parser_parse_toks)

text \<open>
  The decimal digits of a non-negative integer are read back as that integer: it
  re-tokenizes wherever \<open>toStr\<close> prints its decimal digits.
\<close>

lemma tokenize_decimalString: "0 \<le> n \<Longrightarrow> tokenize (decimalString n) = Inr [TNumber n]"
  using tokenize_number[of "[]" "nat n"] by (simp add: decimalString_def)

lemma retokenizes_decimal: "0 \<le> n \<Longrightarrow> toStr n = decimalString n \<Longrightarrow> retokenizes toStr n"
  by (simp add: retokenizes_def tokenize_decimalString)

lemma safeInts_simps:
  "safeInts (IntV v) = (0 \<le> v \<and> v < 2 ^ 53)"
  "safeInts (Var name)"
  "safeInts (Add a b) = (safeInts a \<and> safeInts b)"
  "safeInts (Sub a b) = (safeInts a \<and> safeInts b)"
  "safeInts (Mul a b) = (safeInts a \<and> safeInts b)"
  "safeInts (Div a b) = (safeInts a \<and> safeInts b)"
  "safeInts (Neg a) = safeInts a"
  by (auto simp: safeInts_def)

lemma safeInts_plainInts:
  assumes "safeInts e" "\<And>v. 0 \<le> v \<Longrightarrow> v < 2 ^ 53 \<Longrightarrow> toStr v = decimalString v"
  shows "plainInts toStr e"
  using assms(1)
  by (induction e) (simp_all add: safeInts_simps plainInts_simps retokenizes_decimal assms(2))

section \<open>Operators between parenthesized operands\<close>

lemma parsePrimary_toks_end: "parsePrimary (toks e) = Inr (e, [])"
  using parsePrimary_toks[of e "[]"] by simp

lemmas parser_unfold = Parser_parse_def parseAddSub.simps parseMulDiv.simps parsePrimary_simps
  mulDivLoop_simps addSubLoop_simps parsePrimary_toks parsePrimary_toks_end

lemma parse_same_precedence:
  "precedence o1 = precedence o2 \<Longrightarrow>
     Parser_parse (toks a @ TOp o1 # toks b @ TOp o2 # toks c) = Inr (binary o2 (binary o1 a b) c)"
  by (cases o1; cases o2; simp add: parser_unfold)

lemma parse_unary_minus:
  "Parser_parse (TOp Minus # toks a @ TOp op # toks b) = Inr (binary op (Neg a) b)"
  by (cases op; simp add: parser_unfold)

lemma parse_stacked_minus:
  "Parser_parse (TOp Minus # TOp Minus # toks a) = Inr (Neg (Neg a))"
  by (simp add: parser_unfold)

section \<open>The parser accepts the grammar\<close>

lemma addSubTail_not_mulDiv:
  "grammarAddSubTail t \<Longrightarrow> \<not> mulDivContinues rest \<Longrightarrow> \<not> mulDivContinues (t @ rest)"
  by (cases t rule: grammarAddSubTail.cases) auto

lemma grammar_complete:
  "(grammarAddSub a \<longrightarrow>
      (\<forall>rest. \<not> addSubContinues rest \<and> \<not> mulDivContinues rest \<longrightarrow>
         (\<exists>e. parseAddSub (a @ rest) = Inr (e, rest)))) \<and>
   (grammarAddSubTail st \<longrightarrow>
      (\<forall>left rest. \<not> addSubContinues rest \<and> \<not> mulDivContinues rest \<longrightarrow>
         (\<exists>e. addSubLoop left (st @ rest) = Inr (e, rest)))) \<and>
   (grammarMulDiv m \<longrightarrow>
      (\<forall>rest. \<not> mulDivContinues rest \<longrightarrow> (\<exists>e. parseMulDiv (m @ rest) = Inr (e, rest)))) \<and>
   (grammarMulDivTail mt \<longrightarrow>
      (\<forall>left rest. \<not> mulDivContinues rest \<longrightarrow>
         (\<exists>e. mulDivLoop left (mt @ rest) = Inr (e, rest)))) \<and>
   (grammarPrimary p \<longrightarrow> (\<forall>rest. \<exists>e. parsePrimary (p @ rest) = Inr (e, rest)))"
proof (induction rule: grammarAddSub_grammarAddSubTail_grammarMulDiv_grammarMulDivTail_grammarPrimary.induct)
  case (AddSub m t)
  show ?case
  proof (intro allI impI)
    fix rest assume r: "\<not> addSubContinues rest \<and> \<not> mulDivContinues rest"
    with AddSub.hyps(2) have "\<not> mulDivContinues (t @ rest)"
      by (simp add: addSubTail_not_mulDiv)
    with AddSub.IH(1) obtain e where e: "parseMulDiv (m @ t @ rest) = Inr (e, t @ rest)"
      by blast
    from AddSub.IH(2) r obtain e' where "addSubLoop e (t @ rest) = Inr (e', rest)"
      by blast
    with e show "\<exists>e. parseAddSub ((m @ t) @ rest) = Inr (e, rest)"
      by (simp add: parseAddSub.simps)
  qed
next
  case AddSubEnd
  show ?case by (simp add: addSubLoop_simps)
next
  case (AddSubPlus m t)
  show ?case
  proof (intro allI impI)
    fix left rest assume r: "\<not> addSubContinues rest \<and> \<not> mulDivContinues rest"
    with AddSubPlus.hyps(2) have "\<not> mulDivContinues (t @ rest)"
      by (simp add: addSubTail_not_mulDiv)
    with AddSubPlus.IH(1) obtain e where e: "parseMulDiv (m @ t @ rest) = Inr (e, t @ rest)"
      by blast
    from AddSubPlus.IH(2) r obtain e' where "addSubLoop (Add left e) (t @ rest) = Inr (e', rest)"
      by blast
    with e show "\<exists>e. addSubLoop left ((TOp Plus # m @ t) @ rest) = Inr (e, rest)"
      by (simp add: addSubLoop_simps)
  qed
next
  case (AddSubMinus m t)
  show ?case
  proof (intro allI impI)
    fix left rest assume r: "\<not> addSubContinues rest \<and> \<not> mulDivContinues rest"
    with AddSubMinus.hyps(2) have "\<not> mulDivContinues (t @ rest)"
      by (simp add: addSubTail_not_mulDiv)
    with AddSubMinus.IH(1) obtain e where e: "parseMulDiv (m @ t @ rest) = Inr (e, t @ rest)"
      by blast
    from AddSubMinus.IH(2) r obtain e' where "addSubLoop (Sub left e) (t @ rest) = Inr (e', rest)"
      by blast
    with e show "\<exists>e. addSubLoop left ((TOp Minus # m @ t) @ rest) = Inr (e, rest)"
      by (simp add: addSubLoop_simps)
  qed
next
  case (MulDiv p t)
  show ?case
  proof (intro allI impI)
    fix rest assume r: "\<not> mulDivContinues rest"
    from MulDiv.IH(1) obtain e where e: "parsePrimary (p @ t @ rest) = Inr (e, t @ rest)"
      by blast
    from MulDiv.IH(2) r obtain e' where "mulDivLoop e (t @ rest) = Inr (e', rest)"
      by blast
    with e show "\<exists>e. parseMulDiv ((p @ t) @ rest) = Inr (e, rest)"
      by (simp add: parseMulDiv.simps)
  qed
next
  case MulDivEnd
  show ?case by (simp add: mulDivLoop_simps)
next
  case (MulDivTimes p t)
  show ?case
  proof (intro allI impI)
    fix left rest assume r: "\<not> mulDivContinues rest"
    from MulDivTimes.IH(1) obtain e where e: "parsePrimary (p @ t @ rest) = Inr (e, t @ rest)"
      by blast
    from MulDivTimes.IH(2) r obtain e' where "mulDivLoop (Mul left e) (t @ rest) = Inr (e', rest)"
      by blast
    with e show "\<exists>e. mulDivLoop left ((TOp Times # p @ t) @ rest) = Inr (e, rest)"
      by (simp add: mulDivLoop_simps)
  qed
next
  case (MulDivSlash p t)
  show ?case
  proof (intro allI impI)
    fix left rest assume r: "\<not> mulDivContinues rest"
    from MulDivSlash.IH(1) obtain e where e: "parsePrimary (p @ t @ rest) = Inr (e, t @ rest)"
      by blast
    from MulDivSlash.IH(2) r obtain e' where "mulDivLoop (Div left e) (t @ rest) = Inr (e', rest)"
      by blast
    with e show "\<exists>e. mulDivLoop left ((TOp Slash # p @ t) @ rest) = Inr (e, rest)"
      by (simp add: mulDivLoop_simps)
  qed
next
  case (PrimaryMinus p)
  show ?case
  proof
    fix rest
    from PrimaryMinus.IH obtain e where "parsePrimary (p @ rest) = Inr (e, rest)" by blast
    then show "\<exists>e. parsePrimary ((TOp Minus # p) @ rest) = Inr (e, rest)"
      by (simp add: parsePrimary_simps)
  qed
next
  case (PrimaryNumber v)
  show ?case by (simp add: parsePrimary_simps)
next
  case (PrimaryVar name)
  show ?case by (simp add: parsePrimary_simps)
next
  case (PrimaryParen a)
  show ?case
  proof
    fix rest
    from PrimaryParen.IH obtain e where "parseAddSub (a @ TRParen # rest) = Inr (e, TRParen # rest)"
      by force
    then show "\<exists>e. parsePrimary ((TLParen # a @ [TRParen]) @ rest) = Inr (e, rest)"
      by (simp add: parsePrimary_simps)
  qed
qed

section \<open>What the parser accepts is in the grammar\<close>

lemma parseAddSub_Inr:
  "parseAddSub ts = Inr (e, r) \<Longrightarrow>
     \<exists>left rest. parseMulDiv ts = Inr (left, rest) \<and> addSubLoop left rest = Inr (e, r)"
  by (simp add: parseAddSub.simps split: sum.splits prod.splits)

lemma parseMulDiv_Inr:
  "parseMulDiv ts = Inr (e, r) \<Longrightarrow>
     \<exists>left rest. parsePrimary ts = Inr (left, rest) \<and> mulDivLoop left rest = Inr (e, r)"
  by (simp add: parseMulDiv.simps split: sum.splits prod.splits)

lemma addSubLoop_Inr:
  "addSubLoop left ts = Inr (e, r) \<Longrightarrow>
     (\<exists>rest right rest'. ts = TOp Plus # rest \<and> parseMulDiv rest = Inr (right, rest') \<and>
         addSubLoop (Add left right) rest' = Inr (e, r)) \<or>
     (\<exists>rest right rest'. ts = TOp Minus # rest \<and> parseMulDiv rest = Inr (right, rest') \<and>
         addSubLoop (Sub left right) rest' = Inr (e, r)) \<or>
     (\<not> addSubContinues ts \<and> e = left \<and> r = ts)"
  by (cases ts rule: addSubContinues.cases)
     (auto simp: addSubLoop_simps split: sum.splits prod.splits)

lemma mulDivLoop_Inr:
  "mulDivLoop left ts = Inr (e, r) \<Longrightarrow>
     (\<exists>rest right rest'. ts = TOp Times # rest \<and> parsePrimary rest = Inr (right, rest') \<and>
         mulDivLoop (Mul left right) rest' = Inr (e, r)) \<or>
     (\<exists>rest right rest'. ts = TOp Slash # rest \<and> parsePrimary rest = Inr (right, rest') \<and>
         mulDivLoop (Div left right) rest' = Inr (e, r)) \<or>
     (\<not> mulDivContinues ts \<and> e = left \<and> r = ts)"
  by (cases ts rule: mulDivContinues.cases)
     (auto simp: mulDivLoop_simps split: sum.splits prod.splits)

lemma parsePrimary_Inr:
  assumes "parsePrimary ts = Inr (e, r)"
  shows "(\<exists>rest expr. ts = TOp Minus # rest \<and> parsePrimary rest = Inr (expr, r) \<and> e = Neg expr) \<or>
     (\<exists>v. ts = TNumber v # r \<and> e = IntV v) \<or>
     (\<exists>name. ts = TVar name # r \<and> e = Var name) \<or>
     (\<exists>rest. ts = TLParen # rest \<and> parseAddSub rest = Inr (e, TRParen # r))"
proof (cases ts)
  case Nil
  with assms show ?thesis by (simp add: parsePrimary_simps)
next
  case (Cons t rest)
  show ?thesis
  proof (cases t)
    case (TNumber v)
    with assms Cons show ?thesis by (simp add: parsePrimary_simps)
  next
    case (TVar name)
    with assms Cons show ?thesis by (simp add: parsePrimary_simps)
  next
    case (TOp op)
    show ?thesis
    proof (cases op)
      case Minus
      with assms Cons TOp obtain expr where "parsePrimary rest = Inr (expr, r)" "e = Neg expr"
        by (auto simp: parsePrimary_simps split: sum.splits)
      with Cons TOp Minus show ?thesis by simp
    qed (use assms Cons TOp in \<open>simp_all add: parsePrimary_simps\<close>)
  next
    case TLParen
    with assms Cons obtain expr rest' where a: "parseAddSub rest = Inr (expr, rest')"
      and b: "(case rest' of TRParen # rest'' \<Rightarrow> Inr (expr, rest'')
                | _ \<Rightarrow> Inl ExpectedClosingParenthesis) = Inr (e, r)"
      by (auto simp: parsePrimary_simps split: sum.splits)
    from b have "rest' = TRParen # r \<and> expr = e"
      by (cases rest'; simp split: token.splits)
    with a Cons TLParen show ?thesis by simp
  next
    case TRParen
    with assms Cons show ?thesis by (simp add: parsePrimary_simps)
  qed
qed

lemma grammar_sound:
  "\<forall>e r. parseAddSub ts1 = Inr (e, r) \<longrightarrow> (\<exists>p. ts1 = p @ r \<and> grammarAddSub p)"
  "\<forall>e r. addSubLoop l2 ts2 = Inr (e, r) \<longrightarrow> (\<exists>p. ts2 = p @ r \<and> grammarAddSubTail p)"
  "\<forall>e r. parseMulDiv ts3 = Inr (e, r) \<longrightarrow> (\<exists>p. ts3 = p @ r \<and> grammarMulDiv p)"
  "\<forall>e r. mulDivLoop l4 ts4 = Inr (e, r) \<longrightarrow> (\<exists>p. ts4 = p @ r \<and> grammarMulDivTail p)"
  "\<forall>e r. parsePrimary ts5 = Inr (e, r) \<longrightarrow> (\<exists>p. ts5 = p @ r \<and> grammarPrimary p)"
proof (induct ts1 and l2 ts2 and ts3 and l4 ts4 and ts5
    rule: parseAddSub_addSubLoop_parseMulDiv_mulDivLoop_parsePrimary.induct)
  case (1 ts)
  show ?case
  proof (intro allI impI)
    fix e r assume "parseAddSub ts = Inr (e, r)"
    then obtain left rest where a: "parseMulDiv ts = Inr (left, rest)"
      and b: "addSubLoop left rest = Inr (e, r)"
      using parseAddSub_Inr by blast
    from "1"(1) a obtain m where m: "ts = m @ rest" "grammarMulDiv m" by blast
    from "1"(2)[OF a refl] b obtain t where t: "rest = t @ r" "grammarAddSubTail t" by blast
    from m t have "ts = (m @ t) @ r \<and> grammarAddSub (m @ t)"
      by (simp add: AddSub)
    then show "\<exists>p. ts = p @ r \<and> grammarAddSub p" by blast
  qed
next
  case (2 left ts)
  show ?case
  proof (intro allI impI)
    fix e r assume "addSubLoop left ts = Inr (e, r)"
    from addSubLoop_Inr[OF this] show "\<exists>p. ts = p @ r \<and> grammarAddSubTail p"
    proof (elim disjE exE conjE)
      fix rest right rest'
      assume ts: "ts = TOp Plus # rest" and a: "parseMulDiv rest = Inr (right, rest')"
        and b: "addSubLoop (Add left right) rest' = Inr (e, r)"
      from "2"(1)[OF ts refl refl] a obtain m where m: "rest = m @ rest'" "grammarMulDiv m"
        by blast
      from "2"(2)[OF ts refl refl a refl] b obtain t where t: "rest' = t @ r" "grammarAddSubTail t"
        by blast
      from ts m t have "ts = (TOp Plus # m @ t) @ r \<and> grammarAddSubTail (TOp Plus # m @ t)"
        by (simp add: AddSubPlus)
      then show ?thesis by blast
    next
      fix rest right rest'
      assume ts: "ts = TOp Minus # rest" and a: "parseMulDiv rest = Inr (right, rest')"
        and b: "addSubLoop (Sub left right) rest' = Inr (e, r)"
      from "2"(3)[OF ts refl refl] a obtain m where m: "rest = m @ rest'" "grammarMulDiv m"
        by blast
      from "2"(4)[OF ts refl refl a refl] b obtain t where t: "rest' = t @ r" "grammarAddSubTail t"
        by blast
      from ts m t have "ts = (TOp Minus # m @ t) @ r \<and> grammarAddSubTail (TOp Minus # m @ t)"
        by (simp add: AddSubMinus)
      then show ?thesis by blast
    next
      assume "r = ts"
      then have "ts = [] @ r \<and> grammarAddSubTail []" by (simp add: AddSubEnd)
      then show ?thesis by blast
    qed
  qed
next
  case (3 ts)
  show ?case
  proof (intro allI impI)
    fix e r assume "parseMulDiv ts = Inr (e, r)"
    then obtain left rest where a: "parsePrimary ts = Inr (left, rest)"
      and b: "mulDivLoop left rest = Inr (e, r)"
      using parseMulDiv_Inr by blast
    from "3"(1) a obtain p where p: "ts = p @ rest" "grammarPrimary p" by blast
    from "3"(2)[OF a refl] b obtain t where t: "rest = t @ r" "grammarMulDivTail t" by blast
    from p t have "ts = (p @ t) @ r \<and> grammarMulDiv (p @ t)"
      by (simp add: MulDiv)
    then show "\<exists>p. ts = p @ r \<and> grammarMulDiv p" by blast
  qed
next
  case (4 left ts)
  show ?case
  proof (intro allI impI)
    fix e r assume "mulDivLoop left ts = Inr (e, r)"
    from mulDivLoop_Inr[OF this] show "\<exists>p. ts = p @ r \<and> grammarMulDivTail p"
    proof (elim disjE exE conjE)
      fix rest right rest'
      assume ts: "ts = TOp Times # rest" and a: "parsePrimary rest = Inr (right, rest')"
        and b: "mulDivLoop (Mul left right) rest' = Inr (e, r)"
      from "4"(1)[OF ts refl refl] a obtain p where p: "rest = p @ rest'" "grammarPrimary p"
        by blast
      from "4"(2)[OF ts refl refl a refl] b obtain t where t: "rest' = t @ r" "grammarMulDivTail t"
        by blast
      from ts p t have "ts = (TOp Times # p @ t) @ r \<and> grammarMulDivTail (TOp Times # p @ t)"
        by (simp add: MulDivTimes)
      then show ?thesis by blast
    next
      fix rest right rest'
      assume ts: "ts = TOp Slash # rest" and a: "parsePrimary rest = Inr (right, rest')"
        and b: "mulDivLoop (Div left right) rest' = Inr (e, r)"
      from "4"(3)[OF ts refl refl] a obtain p where p: "rest = p @ rest'" "grammarPrimary p"
        by blast
      from "4"(4)[OF ts refl refl a refl] b obtain t where t: "rest' = t @ r" "grammarMulDivTail t"
        by blast
      from ts p t have "ts = (TOp Slash # p @ t) @ r \<and> grammarMulDivTail (TOp Slash # p @ t)"
        by (simp add: MulDivSlash)
      then show ?thesis by blast
    next
      assume "r = ts"
      then have "ts = [] @ r \<and> grammarMulDivTail []" by (simp add: MulDivEnd)
      then show ?thesis by blast
    qed
  qed
next
  case (5 ts)
  show ?case
  proof (intro allI impI)
    fix e r assume "parsePrimary ts = Inr (e, r)"
    from parsePrimary_Inr[OF this] show "\<exists>p. ts = p @ r \<and> grammarPrimary p"
    proof (elim disjE exE conjE)
      fix rest expr
      assume ts: "ts = TOp Minus # rest" and a: "parsePrimary rest = Inr (expr, r)"
      from "5"(1)[OF ts refl refl] a obtain p where p: "rest = p @ r" "grammarPrimary p"
        by blast
      from ts p have "ts = (TOp Minus # p) @ r \<and> grammarPrimary (TOp Minus # p)"
        by (simp add: PrimaryMinus)
      then show ?thesis by blast
    next
      fix v assume "ts = TNumber v # r"
      then have "ts = [TNumber v] @ r \<and> grammarPrimary [TNumber v]"
        by (simp add: PrimaryNumber)
      then show ?thesis by blast
    next
      fix name assume "ts = TVar name # r"
      then have "ts = [TVar name] @ r \<and> grammarPrimary [TVar name]"
        by (simp add: PrimaryVar)
      then show ?thesis by blast
    next
      fix rest
      assume ts: "ts = TLParen # rest" and a: "parseAddSub rest = Inr (e, TRParen # r)"
      from "5"(2)[OF ts refl] a obtain p where p: "rest = p @ TRParen # r" "grammarAddSub p"
        by blast
      from ts p have "ts = (TLParen # p @ [TRParen]) @ r \<and> grammarPrimary (TLParen # p @ [TRParen])"
        by (simp add: PrimaryParen)
      then show ?thesis by blast
    qed
  qed
qed

lemma Parser_parse_grammar: "(\<exists>e. Parser_parse ts = Inr e) = grammarAddSub ts"
proof
  assume "\<exists>e. Parser_parse ts = Inr e"
  then obtain e where "parseAddSub ts = Inr (e, [])"
    by (auto simp: Parser_parse_def split: sum.splits prod.splits if_splits)
  with grammar_sound(1)[of ts] show "grammarAddSub ts" by auto
next
  assume "grammarAddSub ts"
  with grammar_complete[of ts "[]" "[]" "[]" "[]"]
  have "\<forall>rest. \<not> addSubContinues rest \<and> \<not> mulDivContinues rest \<longrightarrow>
         (\<exists>e. parseAddSub (ts @ rest) = Inr (e, rest))"
    by blast
  then have "\<not> addSubContinues [] \<and> \<not> mulDivContinues [] \<longrightarrow>
         (\<exists>e. parseAddSub (ts @ []) = Inr (e, []))"
    by (rule spec)
  then obtain e where "parseAddSub ts = Inr (e, [])"
    by auto
  then show "\<exists>e. Parser_parse ts = Inr e" by (simp add: Parser_parse_def)
qed

section \<open>The tokenizer fails on an unexpected character only\<close>

lemma set_dropWhile_accepted:
  assumes "\<forall>c \<in> set (dropWhile P cs). acceptedChar c" "\<And>c. P c \<Longrightarrow> acceptedChar c"
  shows "\<forall>c \<in> set cs. acceptedChar c"
proof
  fix c assume "c \<in> set cs"
  then have "c \<in> set (takeWhile P cs @ dropWhile P cs)" by simp
  then have "c \<in> set (takeWhile P cs) \<or> c \<in> set (dropWhile P cs)" by (simp only: set_append Un_iff)
  with assms show "acceptedChar c" by (auto dest: set_takeWhileD)
qed

lemma tokenize_Inr_iff: "(\<exists>ts. tokenize s = Inr ts) = (\<forall>c \<in> set s. acceptedChar c)"
proof (induction s rule: tokenize.induct)
  case 1
  show ?case by simp
next
  case (2 c cs)
  consider (space) "isSpace c"
    | (digit) "\<not> isSpace c" "isDigit c"
    | (letter) "\<not> isSpace c" "\<not> isDigit c" "isLetter c"
    | (oper) "\<not> isSpace c" "\<not> isDigit c" "\<not> isLetter c" "isOperator c"
    | (lparen) "\<not> isSpace c" "\<not> isDigit c" "\<not> isLetter c" "\<not> isOperator c" "c = CHR ''(''"
    | (rparen) "\<not> isSpace c" "\<not> isDigit c" "\<not> isLetter c" "\<not> isOperator c" "c \<noteq> CHR ''(''"
        "c = CHR '')''"
    | (other) "\<not> acceptedChar c"
    by (auto simp: acceptedChar_def)
  then show ?case
  proof cases
    case space
    with "2.IH"(1) show ?thesis by (simp add: acceptedChar_def)
  next
    case digit
    have "(\<forall>c \<in> set (dropWhile isDigit cs). acceptedChar c) = (\<forall>c \<in> set cs. acceptedChar c)"
      using set_dropWhile_accepted[of isDigit cs] set_dropWhileD[of _ isDigit cs]
      by (auto simp: acceptedChar_def)
    with digit "2.IH"(2) show ?thesis
      by (auto simp: acceptedChar_def split: sum.splits)
  next
    case letter
    have "(\<forall>c \<in> set (dropWhile isLetter cs). acceptedChar c) = (\<forall>c \<in> set cs. acceptedChar c)"
      using set_dropWhile_accepted[of isLetter cs] set_dropWhileD[of _ isLetter cs]
      by (auto simp: acceptedChar_def)
    with letter "2.IH"(3) show ?thesis
      by (auto simp: acceptedChar_def split: sum.splits)
  next
    case oper
    with "2.IH"(4) show ?thesis by (auto simp: acceptedChar_def split: sum.splits)
  next
    case lparen
    with "2.IH"(5) show ?thesis by (auto simp: acceptedChar_def split: sum.splits)
  next
    case rparen
    with "2.IH"(6) show ?thesis by (auto simp: acceptedChar_def split: sum.splits)
  next
    case other
    then show ?thesis by (auto simp: acceptedChar_def)
  qed
qed

lemma tokenize_Inl: "tokenize s = Inl err \<Longrightarrow> \<exists>c \<in> set s. err = UnexpectedCharacter c \<and> \<not> acceptedChar c"
proof (induction s rule: tokenize.induct)
  case 1
  then show ?case by simp
next
  case (2 c cs)
  consider (space) "isSpace c"
    | (digit) "\<not> isSpace c" "isDigit c"
    | (letter) "\<not> isSpace c" "\<not> isDigit c" "isLetter c"
    | (oper) "\<not> isSpace c" "\<not> isDigit c" "\<not> isLetter c" "isOperator c"
    | (lparen) "\<not> isSpace c" "\<not> isDigit c" "\<not> isLetter c" "\<not> isOperator c" "c = CHR ''(''"
    | (rparen) "\<not> isSpace c" "\<not> isDigit c" "\<not> isLetter c" "\<not> isOperator c" "c \<noteq> CHR ''(''"
        "c = CHR '')''"
    | (other) "\<not> acceptedChar c"
    by (auto simp: acceptedChar_def)
  then show ?case
  proof cases
    case space
    with "2.IH"(1) "2.prems" show ?thesis by simp
  next
    case digit
    with "2.prems" have "tokenize (dropWhile isDigit cs) = Inl err"
      by (simp split: sum.splits)
    with "2.IH"(2) digit show ?thesis by (auto dest: set_dropWhileD)
  next
    case letter
    with "2.prems" have "tokenize (dropWhile isLetter cs) = Inl err"
      by (simp split: sum.splits)
    with "2.IH"(3) letter show ?thesis by (auto dest: set_dropWhileD)
  next
    case oper
    with "2.prems" have "tokenize cs = Inl err" by (simp split: sum.splits)
    with "2.IH"(4) oper show ?thesis by auto
  next
    case lparen
    with "2.prems" have "tokenize cs = Inl err" by (simp split: sum.splits)
    with "2.IH"(5) lparen show ?thesis by auto
  next
    case rparen
    with "2.prems" have "tokenize cs = Inl err" by (simp split: sum.splits)
    with "2.IH"(6) rparen show ?thesis by auto
  next
    case other
    with "2.prems" show ?thesis by (auto simp: acceptedChar_def)
  qed
qed

section \<open>The errors of the parser\<close>

lemma parser_errors:
  "\<forall>err. parseAddSub ts1 = Inl err \<longrightarrow> isSyntaxError err"
  "\<forall>err. addSubLoop l2 ts2 = Inl err \<longrightarrow> isSyntaxError err"
  "\<forall>err. parseMulDiv ts3 = Inl err \<longrightarrow> isSyntaxError err"
  "\<forall>err. mulDivLoop l4 ts4 = Inl err \<longrightarrow> isSyntaxError err"
  "\<forall>err. parsePrimary ts5 = Inl err \<longrightarrow> isSyntaxError err"
proof (induct ts1 and l2 ts2 and ts3 and l4 ts4 and ts5
    rule: parseAddSub_addSubLoop_parseMulDiv_mulDivLoop_parsePrimary.induct)
  case (1 ts)
  then show ?case
    by (subst parseAddSub.simps) (auto split: sum.splits)
next
  case (2 left ts)
  note IH = this
  show ?case
  proof (cases "addSubContinues ts")
    case False
    then show ?thesis by (simp add: addSubLoop_simps)
  next
    case True
    then consider rest where "ts = TOp Plus # rest" | rest where "ts = TOp Minus # rest"
      by (cases ts rule: addSubContinues.cases) auto
    then show ?thesis
    proof cases
      case 1
      with IH(1,2) show ?thesis by (auto simp: addSubLoop_simps split: sum.splits)
    next
      case 2
      with IH(3,4) show ?thesis by (auto simp: addSubLoop_simps split: sum.splits)
    qed
  qed
next
  case (3 ts)
  then show ?case
    by (subst parseMulDiv.simps) (auto split: sum.splits)
next
  case (4 left ts)
  note IH = this
  show ?case
  proof (cases "mulDivContinues ts")
    case False
    then show ?thesis by (simp add: mulDivLoop_simps)
  next
    case True
    then consider rest where "ts = TOp Times # rest" | rest where "ts = TOp Slash # rest"
      by (cases ts rule: mulDivContinues.cases) auto
    then show ?thesis
    proof cases
      case 1
      with IH(1,2) show ?thesis by (auto simp: mulDivLoop_simps split: sum.splits)
    next
      case 2
      with IH(3,4) show ?thesis by (auto simp: mulDivLoop_simps split: sum.splits)
    qed
  qed
next
  case (5 ts)
  show ?case
  proof (cases ts)
    case Nil
    then show ?thesis by (simp add: parsePrimary_simps)
  next
    case (Cons t rest)
    show ?thesis
    proof (cases t)
      case (TOp op)
      show ?thesis
      proof (cases op)
        case Minus
        with "5"(1) Cons TOp show ?thesis
          by (auto simp: parsePrimary_simps split: sum.splits)
      qed (use Cons TOp in \<open>simp_all add: parsePrimary_simps\<close>)
    next
      case TLParen
      with "5"(2) Cons show ?thesis
        by (auto simp: parsePrimary_simps split: sum.splits list.splits token.splits)
    qed (use Cons in \<open>simp_all add: parsePrimary_simps\<close>)
  qed
qed

lemma parseExpression_errors: "parseExpression s = Inl err \<Longrightarrow> isSyntaxError err"
proof (cases "tokenize s")
  case (Inl err')
  assume "parseExpression s = Inl err"
  with Inl tokenize_Inl[of s err'] show ?thesis by (auto simp: parseExpression_def)
next
  case (Inr ts)
  assume "parseExpression s = Inl err"
  with Inr have "Parser_parse ts = Inl err" by (simp add: parseExpression_def)
  then show ?thesis
    using parser_errors(1)[of ts]
    by (auto simp: Parser_parse_def split: sum.splits prod.splits if_splits)
qed

lemma parseExpression_grammar:
  "(\<exists>e. parseExpression s = Inr e) = (\<exists>ts. tokenize s = Inr ts \<and> grammarAddSub ts)"
proof (cases "tokenize s")
  case (Inl err)
  then show ?thesis by (simp add: parseExpression_def)
next
  case (Inr ts)
  then show ?thesis
    using Parser_parse_grammar[of ts] by (simp add: parseExpression_def)
qed

section \<open>The checker always returns\<close>

text \<open>
  The map of a trial binds every variable of both expressions, so no substitution looks
  up a name the map does not hold, and the evaluator never raises: the checker returns a
  boolean for all inputs and all random draws.
\<close>

lemma set_setAdd: "set (setAdd vars name) = insert name (set vars)"
  by (auto simp: setAdd_def)

lemma set_traverse: "set (traverse e vars) = set vars \<union> set (traverse e [])"
proof (induction e arbitrary: vars)
  case (Add a b)
  show ?case
    using Add.IH(1)[of vars] Add.IH(2)[of "traverse a vars"] Add.IH(2)[of "traverse a []"]
    by auto
next
  case (Sub a b)
  show ?case
    using Sub.IH(1)[of vars] Sub.IH(2)[of "traverse a vars"] Sub.IH(2)[of "traverse a []"]
    by auto
next
  case (Mul a b)
  show ?case
    using Mul.IH(1)[of vars] Mul.IH(2)[of "traverse a vars"] Mul.IH(2)[of "traverse a []"]
    by auto
next
  case (Div a b)
  show ?case
    using Div.IH(1)[of vars] Div.IH(2)[of "traverse a vars"] Div.IH(2)[of "traverse a []"]
    by auto
next
  case (Neg a)
  show ?case
    using Neg.IH[of vars] by simp
next
  case (Var name)
  show ?case by (simp add: set_setAdd)
next
  case (IntV v)
  show ?case by simp
qed

lemma substituteVariables_defined:
  "set (traverse e []) \<subseteq> dom varMap \<Longrightarrow> \<exists>e'. substituteVariables varMap e = Inr e'"
proof (induction e)
  case (Add a b)
  from Add.prems set_traverse[of b "traverse a []"]
  have "set (traverse a []) \<subseteq> dom varMap" "set (traverse b []) \<subseteq> dom varMap" by auto
  with Add.IH show ?case by auto
next
  case (Sub a b)
  from Sub.prems set_traverse[of b "traverse a []"]
  have "set (traverse a []) \<subseteq> dom varMap" "set (traverse b []) \<subseteq> dom varMap" by auto
  with Sub.IH show ?case by auto
next
  case (Mul a b)
  from Mul.prems set_traverse[of b "traverse a []"]
  have "set (traverse a []) \<subseteq> dom varMap" "set (traverse b []) \<subseteq> dom varMap" by auto
  with Mul.IH show ?case by auto
next
  case (Div a b)
  from Div.prems set_traverse[of b "traverse a []"]
  have "set (traverse a []) \<subseteq> dom varMap" "set (traverse b []) \<subseteq> dom varMap" by auto
  with Div.IH show ?case by auto
next
  case (Neg a)
  then show ?case by auto
next
  case (Var name)
  then show ?case by (auto simp: set_setAdd)
qed simp

lemma set_foldl_setAdd: "set (foldl setAdd acc names) = set acc \<union> set names"
  by (induction names arbitrary: acc) (auto simp: set_setAdd)

lemma dom_assignVariables:
  "dom (fst (assignVariables rnd vars varMap k)) = dom varMap \<union> set vars"
  by (induction vars arbitrary: varMap k) auto

lemma trial_returns:
  assumes "set (traverse expr1 []) \<subseteq> dom varMap" "set (traverse expr2 []) \<subseteq> dom varMap"
  shows "\<exists>b. trial varMap expr1 expr2 = Inr b"
proof -
  obtain s1 s2 where s: "substituteVariables varMap expr1 = Inr s1"
      "substituteVariables varMap expr2 = Inr s2"
    using assms substituteVariables_defined by blast
  obtain r1 r2 where r: "evaluateExpression s1 = Inr r1" "evaluateExpression s2 = Inr r2"
    using evaluateExpression_total by blast
  show ?thesis
    by (auto simp: trial_def s r split: option.splits)
qed

lemma trialLoop_returns:
  assumes "set (traverse expr1 []) \<subseteq> set vars" "set (traverse expr2 []) \<subseteq> set vars"
  shows "\<exists>b. trialLoop rnd vars expr1 expr2 i k = Inr b"
proof (induction "iterations - i" arbitrary: i k)
  case 0
  then show ?case by (subst trialLoop.simps) auto
next
  case (Suc n)
  then have n: "n = iterations - Suc i" and i: "i < iterations" by simp_all
  obtain varMap k' where a: "assignVariables rnd vars Map.empty k = (varMap, k')"
    by (cases "assignVariables rnd vars Map.empty k")
  with dom_assignVariables[of rnd vars Map.empty k] have "dom varMap = set vars" by simp
  with assms obtain b where b: "trial varMap expr1 expr2 = Inr b"
    using trial_returns by blast
  from Suc.hyps(1)[OF n] obtain b' where "trialLoop rnd vars expr1 expr2 (Suc i) k' = Inr b'"
    by blast
  with i a b show ?case
    by (subst trialLoop.simps) (cases b; auto)
qed

lemma areExpressionsEquivalent_returns: "\<exists>b. areExpressionsEquivalent rnd expr1 expr2 = Inr b"
  unfolding areExpressionsEquivalent_def Let_def getVariablesSet_def
  by (rule trialLoop_returns) (simp_all add: set_foldl_setAdd)

section \<open>The checker on a zero denominator\<close>

lemma trial_zero_denominator:
  "trial (varMap(''x'' \<mapsto> d)) (Div (Var ''x'') (IntV 0)) (IntV 1) = Inr True"
  by (simp add: trial_def combineDiv_def)

lemma assignVariables_x:
  "assignVariables rnd [''x''] Map.empty k =
     (Map.empty(''x'' \<mapsto> \<lfloor>rnd k * of_int rangeV\<rfloor> - rangeV div 2), Suc k)"
  by simp

lemma trialLoop_zero_denominator:
  "trialLoop rnd [''x''] (Div (Var ''x'') (IntV 0)) (IntV 1) i k = Inr True"
proof (induction "iterations - i" arbitrary: i k)
  case 0
  then show ?case by (subst trialLoop.simps) simp
next
  case (Suc n)
  then have "n = iterations - Suc i" and "i < iterations" by simp_all
  with Suc.hyps(1) show ?case
    by (subst trialLoop.simps) (simp add: trial_zero_denominator)
qed

lemma variables_zero_denominator:
  "foldl setAdd [] (getVariablesSet (Div (Var ''x'') (IntV 0)) @ getVariablesSet (IntV 1)) = [''x'']"
  by (simp add: getVariablesSet_def setAdd_def)

section \<open>Claims about the evaluator\<close>

text \<open>
  Claim C1, as amended. The evaluator returns a tree for every expression, and the tree
  never contains \<open>Neg (Neg _)\<close>. When no \<open>Int\<close> leaf of the input has a negative value,
  no \<open>Int\<close> node of the result has a negative value either. What the claim says of the
  numeric subtrees beyond this, that none is \<open>Neg (Int 0)\<close>, is not part of the
  statement.
\<close>

theorem evaluate_standardized_leaves:
  "\<exists>r. evaluateExpression e = Inr r \<and> noNegNeg r \<and>
       (nonNegativeInts e \<longrightarrow> nonNegativeInts r)"
proof -
  obtain r where r: "evaluateExpression e = Inr r"
    using evaluateExpression_total by blast
  have "noNegNeg r"
    using r by (rule noNegNeg_evaluate)
  moreover have "nonNegativeInts r" if "nonNegativeInts e"
    using r that by (rule nonNegativeInts_evaluate)
  ultimately show ?thesis using r by blast
qed

text \<open>
  The amended claim at \<open>(-(-(5 - 9))) * x\<close>, whose leaves are non-negative: the difference
  collapses to \<open>Neg (Int 4)\<close> and the two negations around it are taken off in turn.
\<close>

theorem evaluate_standardized_leaves_witness:
  "nonNegativeInts (Mul (Neg (Neg (Sub (IntV 5) (IntV 9)))) (Var ''x'')) \<and>
   evaluateExpression (Mul (Neg (Neg (Sub (IntV 5) (IntV 9)))) (Var ''x'')) =
     Inr (Mul (Neg (IntV 4)) (Var ''x'')) \<and>
   noNegNeg (Mul (Neg (IntV 4)) (Var ''x'')) \<and>
   nonNegativeInts (Mul (Neg (IntV 4)) (Var ''x''))"
  using evaluate_standardized_leaves [of "Mul (Neg (Neg (Sub (IntV 5) (IntV 9)))) (Var ''x'')"]
  by (simp add: nonNegativeInts_def combineArith_def standardizeNumber_def)

text \<open>
  Claim C1 as stated fails. An \<open>Int\<close> leaf with a negative value, which the type of
  expressions admits and the parser never builds, is returned as it is. And
  \<open>Neg (Int 0)\<close>, the parse of \<open>-0\<close>, is returned as it is: a numeric subtree
  \<open>Neg (Int n)\<close> with \<open>n = 0\<close>.
\<close>

theorem evaluate_standardized_counterexample:
  "evaluateExpression (Neg (IntV 0)) = Inr (Neg (IntV 0)) \<and> \<not> standardized (Neg (IntV 0)) \<and>
   evaluateExpression (IntV (- 1)) = Inr (IntV (- 1)) \<and> \<not> standardized (IntV (- 1))"
  by (simp add: standardized_def)

text \<open>
  Claim C3. Evaluation is idempotent: for every expression the evaluator returns a tree,
  and evaluating that tree returns it again.
\<close>

theorem evaluate_idempotent:
  "\<exists>r. evaluateExpression e = Inr r \<and> evaluateExpression r = Inr r"
proof -
  obtain r where r: "evaluateExpression e = Inr r"
    using evaluateExpression_total by blast
  then have "normalForm r"
    by (rule normalForm_evaluate)
  then have "evaluateExpression r = Inr r"
    by (rule normalForm_fixed)
  with r show ?thesis by blast
qed

text \<open>
  Claim C9. The error of \<open>getValue\<close> is unreachable from the evaluator: \<open>getValue\<close>
  returns a value exactly on the nodes for which \<open>isNumber\<close> holds and raises on the
  others, the two places that call it
  (the shared branch of \<open>Add\<close>, \<open>Sub\<close>, \<open>Mul\<close> and the branch of \<open>Div\<close>) do so under
  that guard and return a tree for all evaluated children, and \<open>evaluateExpression\<close>
  returns a tree for every expression, never the error "Expression is not a number".
\<close>

theorem evaluate_never_raises:
  "(\<exists>r. evaluateExpression e = Inr r) \<and>
   evaluateExpression e \<noteq> Inl ExpressionIsNotANumber \<and>
   (\<exists>x. combineArith f mk left right = Inr x) \<and>
   (\<exists>x. combineDiv left right = Inr x) \<and>
   (getValue t = Inl ExpressionIsNotANumber) = (\<not> isNumber t) \<and>
   (\<exists>v. getValue t = Inr v) = isNumber t"
proof -
  obtain r where "evaluateExpression e = Inr r"
    using evaluateExpression_total by blast
  moreover have "(getValue t = Inl ExpressionIsNotANumber) = (\<not> isNumber t)"
    by (cases t rule: isNumber.cases) simp_all
  moreover have "(\<exists>v. getValue t = Inr v) = isNumber t"
    by (cases t rule: isNumber.cases) simp_all
  ultimately show ?thesis
    using combineArith_total combineDiv_total by simp
qed

text \<open>
  Claim C2. \<open>4 + x + 1\<close> parses to \<open>Add (Add (Int 4) (Var x)) (Int 1)\<close>, and the
  evaluator returns this tree as it is, not \<open>Add (Int 5) (Var x)\<close>: there is no
  rebalancing across a variable. In general an \<open>Add\<close>, \<open>Sub\<close> or \<open>Mul\<close> node whose
  evaluated children are not both numeric is re-emitted with the evaluated children, and
  a node whose evaluated children are both numeric collapses to the standardized result
  of the arithmetic.
\<close>

theorem evaluate_no_rebalancing:
  "parseExpression ''4 + x + 1'' = Inr (Add (Add (IntV 4) (Var ''x'')) (IntV 1)) \<and>
   evaluateExpression (Add (Add (IntV 4) (Var ''x'')) (IntV 1)) =
     Inr (Add (Add (IntV 4) (Var ''x'')) (IntV 1)) \<and>
   evaluateExpression (Add (Add (IntV 4) (Var ''x'')) (IntV 1)) \<noteq> Inr (Add (IntV 5) (Var ''x'')) \<and>
   (\<exists>l r. evaluateExpression a = Inr l \<and> evaluateExpression b = Inr r \<and>
      (\<not> (isNumber l \<and> isNumber r) \<longrightarrow>
         evaluateExpression (Add a b) = Inr (Add l r) \<and>
         evaluateExpression (Sub a b) = Inr (Sub l r) \<and>
         evaluateExpression (Mul a b) = Inr (Mul l r)) \<and>
      (isNumber l \<and> isNumber r \<longrightarrow>
         (\<exists>x y. getValue l = Inr x \<and> getValue r = Inr y \<and>
            evaluateExpression (Add a b) = Inr (standardizeNumber (x + y)) \<and>
            evaluateExpression (Sub a b) = Inr (standardizeNumber (x - y)) \<and>
            evaluateExpression (Mul a b) = Inr (standardizeNumber (x * y)))))"
proof -
  have p: "parseExpression ''4 + x + 1'' = Inr (Add (Add (IntV 4) (Var ''x'')) (IntV 1))"
    by code_simp
  have e: "evaluateExpression (Add (Add (IntV 4) (Var ''x'')) (IntV 1)) =
     Inr (Add (Add (IntV 4) (Var ''x'')) (IntV 1))"
    by (simp add: combineArith_def)
  obtain l r where lr: "evaluateExpression a = Inr l" "evaluateExpression b = Inr r"
    using evaluateExpression_total by blast
  have keep: "evaluateExpression (Add a b) = Inr (Add l r) \<and>
         evaluateExpression (Sub a b) = Inr (Sub l r) \<and>
         evaluateExpression (Mul a b) = Inr (Mul l r)" if "\<not> (isNumber l \<and> isNumber r)"
    using that lr by (auto simp: combineArith_def)
  have collapse: "\<exists>x y. getValue l = Inr x \<and> getValue r = Inr y \<and>
            evaluateExpression (Add a b) = Inr (standardizeNumber (x + y)) \<and>
            evaluateExpression (Sub a b) = Inr (standardizeNumber (x - y)) \<and>
            evaluateExpression (Mul a b) = Inr (standardizeNumber (x * y))"
    if n: "isNumber l \<and> isNumber r"
  proof -
    from n obtain x y where "getValue l = Inr x" "getValue r = Inr y"
      using isNumber_getValue by blast
    with n lr show ?thesis by (simp add: combineArith_def)
  qed
  from p e lr keep collapse show ?thesis by auto
qed

text \<open>
  The claim at \<open>4 + x\<close> and at \<open>(4 + x) + 1\<close>, where a child is not numeric, and at
  \<open>4 + 1\<close>, where both are.
\<close>

theorem evaluate_no_rebalancing_witness:
  "\<not> (isNumber (IntV 4) \<and> isNumber (Var ''x'')) \<and>
   evaluateExpression (Add (IntV 4) (Var ''x'')) = Inr (Add (IntV 4) (Var ''x'')) \<and>
   \<not> (isNumber (Add (IntV 4) (Var ''x'')) \<and> isNumber (IntV 1)) \<and>
   evaluateExpression (Add (Add (IntV 4) (Var ''x'')) (IntV 1)) =
     Inr (Add (Add (IntV 4) (Var ''x'')) (IntV 1)) \<and>
   isNumber (IntV 4) \<and> isNumber (IntV 1) \<and>
   evaluateExpression (Add (IntV 4) (IntV 1)) = Inr (IntV 5)"
  using evaluate_no_rebalancing [of "IntV 4" "Var ''x''"]
    evaluate_no_rebalancing [of "Add (IntV 4) (Var ''x'')" "IntV 1"]
    evaluate_no_rebalancing [of "IntV 4" "IntV 1"]
  by (simp add: standardizeNumber_def)

text \<open>
  Claim C4. Once both children of a \<open>Div\<close> node are evaluated, the node collapses to a
  standardized integer if and only if both evaluated children are numeric, the divisor's
  value is not zero and it divides the dividend's value exactly. The result is then the
  numeric node whose value is the exact quotient of the two values, in standardized form:
  \<open>Int n\<close> with \<open>n \<ge> 0\<close> or \<open>Neg (Int n)\<close> with \<open>n > 0\<close>. Otherwise the result is \<open>Div\<close>
  of the evaluated children, which is not numeric. In particular \<open>4 / 2\<close> evaluates to
  \<open>Int 2\<close> and \<open>4 / 3\<close> to \<open>Div (Int 4) (Int 3)\<close>.
\<close>

theorem evaluate_Div_collapses:
  "(\<exists>l r res. evaluateExpression a = Inr l \<and> evaluateExpression b = Inr r \<and>
       evaluateExpression (Div a b) = Inr res \<and>
       (isNumber res \<longleftrightarrow> divCollapses l r) \<and>
       (divCollapses l r \<longrightarrow>
          (\<exists>x y q. numericValue l = Some x \<and> numericValue r = Some y \<and> y \<noteq> 0 \<and> q * y = x \<and>
                   numericValue res = Some q \<and> standardNumber res)) \<and>
       (\<not> divCollapses l r \<longrightarrow> res = Div l r)) \<and>
   parseExpression ''4 / 2'' = Inr (Div (IntV 4) (IntV 2)) \<and>
   evaluateExpression (Div (IntV 4) (IntV 2)) = Inr (IntV 2) \<and>
   parseExpression ''4 / 3'' = Inr (Div (IntV 4) (IntV 3)) \<and>
   evaluateExpression (Div (IntV 4) (IntV 3)) = Inr (Div (IntV 4) (IntV 3))"
proof -
  obtain l r where lr: "evaluateExpression a = Inr l" "evaluateExpression b = Inr r"
    using evaluateExpression_total by blast
  then have "evaluateExpression (Div a b) = combineDiv l r" by simp
  with combineDiv_spec[of l r] lr
  have general: "\<exists>l r res. evaluateExpression a = Inr l \<and> evaluateExpression b = Inr r \<and>
       evaluateExpression (Div a b) = Inr res \<and>
       (isNumber res \<longleftrightarrow> divCollapses l r) \<and>
       (divCollapses l r \<longrightarrow>
          (\<exists>x y q. numericValue l = Some x \<and> numericValue r = Some y \<and> y \<noteq> 0 \<and> q * y = x \<and>
                   numericValue res = Some q \<and> standardNumber res)) \<and>
       (\<not> divCollapses l r \<longrightarrow> res = Div l r)"
    by auto
  have p1: "parseExpression ''4 / 2'' = Inr (Div (IntV 4) (IntV 2))" by code_simp
  have e1: "evaluateExpression (Div (IntV 4) (IntV 2)) = Inr (IntV 2)" by code_simp
  have p2: "parseExpression ''4 / 3'' = Inr (Div (IntV 4) (IntV 3))" by code_simp
  have e2: "evaluateExpression (Div (IntV 4) (IntV 3)) = Inr (Div (IntV 4) (IntV 3))" by code_simp
  from general p1 e1 p2 e2 show ?thesis by blast
qed

text \<open>
  The claim where the node collapses, at \<open>(-6) / 3\<close>, \<open>6 / (-3)\<close>, \<open>(-6) / (-3)\<close> and
  \<open>(1 - 7) / (1 + 2)\<close>, and where it does not, at \<open>4 / 3\<close>, \<open>4 / 0\<close>, \<open>(-7) / 2\<close> and
  \<open>x / 2\<close>.
\<close>

theorem evaluate_Div_collapses_witness:
  "divCollapses (Neg (IntV 6)) (IntV 3) \<and>
   evaluateExpression (Div (Neg (IntV 6)) (IntV 3)) = Inr (Neg (IntV 2)) \<and>
   divCollapses (IntV 6) (Neg (IntV 3)) \<and>
   evaluateExpression (Div (IntV 6) (Neg (IntV 3))) = Inr (Neg (IntV 2)) \<and>
   divCollapses (Neg (IntV 6)) (Neg (IntV 3)) \<and>
   evaluateExpression (Div (Neg (IntV 6)) (Neg (IntV 3))) = Inr (IntV 2) \<and>
   evaluateExpression (Sub (IntV 1) (IntV 7)) = Inr (Neg (IntV 6)) \<and>
   evaluateExpression (Add (IntV 1) (IntV 2)) = Inr (IntV 3) \<and>
   evaluateExpression (Div (Sub (IntV 1) (IntV 7)) (Add (IntV 1) (IntV 2))) = Inr (Neg (IntV 2)) \<and>
   \<not> divCollapses (IntV 4) (IntV 3) \<and>
   evaluateExpression (Div (IntV 4) (IntV 3)) = Inr (Div (IntV 4) (IntV 3)) \<and>
   \<not> divCollapses (IntV 4) (IntV 0) \<and>
   evaluateExpression (Div (IntV 4) (IntV 0)) = Inr (Div (IntV 4) (IntV 0)) \<and>
   \<not> divCollapses (Neg (IntV 7)) (IntV 2) \<and>
   evaluateExpression (Div (Neg (IntV 7)) (IntV 2)) = Inr (Div (Neg (IntV 7)) (IntV 2)) \<and>
   \<not> divCollapses (Var ''x'') (IntV 2) \<and>
   evaluateExpression (Div (Var ''x'') (IntV 2)) = Inr (Div (Var ''x'') (IntV 2))"
proof -
  have children: "evaluateExpression (Sub (IntV 1) (IntV 7)) = Inr (Neg (IntV 6))"
    "evaluateExpression (Add (IntV 1) (IntV 2)) = Inr (IntV 3)"
    by (simp_all add: combineArith_def standardizeNumber_def)
  have c: "divCollapses (Neg (IntV 6)) (IntV 3)" "divCollapses (IntV 6) (Neg (IntV 3))"
    "divCollapses (Neg (IntV 6)) (Neg (IntV 3))"
    "\<not> divCollapses (IntV 4) (IntV 3)" "\<not> divCollapses (IntV 4) (IntV 0)"
    "\<not> divCollapses (Neg (IntV 7)) (IntV 2)" "\<not> divCollapses (Var ''x'') (IntV 2)"
    by (simp_all add: divCollapses_def)
  have r1: "evaluateExpression (Div (Neg (IntV 6)) (IntV 3)) = Inr (Neg (IntV 2))"
  proof -
    from evaluate_Div_collapses [of "Neg (IntV 6)" "IntV 3"] c(1)
    obtain res q where res: "evaluateExpression (Div (Neg (IntV 6)) (IntV 3)) = Inr res"
      and q: "q * 3 = - 6" "numericValue res = Some q" "standardNumber res"
      by auto
    from q(1) have "q = - 2" by arith
    with standardNumber_unique[OF q(2,3)] res show ?thesis by simp
  qed
  have r2: "evaluateExpression (Div (IntV 6) (Neg (IntV 3))) = Inr (Neg (IntV 2))"
  proof -
    from evaluate_Div_collapses [of "IntV 6" "Neg (IntV 3)"] c(2)
    obtain res q where res: "evaluateExpression (Div (IntV 6) (Neg (IntV 3))) = Inr res"
      and q: "q * (- 3) = 6" "numericValue res = Some q" "standardNumber res"
      by auto
    from q(1) have "q = - 2" by arith
    with standardNumber_unique[OF q(2,3)] res show ?thesis by simp
  qed
  have r3: "evaluateExpression (Div (Neg (IntV 6)) (Neg (IntV 3))) = Inr (IntV 2)"
  proof -
    from evaluate_Div_collapses [of "Neg (IntV 6)" "Neg (IntV 3)"] c(3)
    obtain res q where res: "evaluateExpression (Div (Neg (IntV 6)) (Neg (IntV 3))) = Inr res"
      and q: "q * (- 3) = - 6" "numericValue res = Some q" "standardNumber res"
      by auto
    from q(1) have "q = 2" by arith
    with standardNumber_unique[OF q(2,3)] res show ?thesis by simp
  qed
  have r4: "evaluateExpression (Div (Sub (IntV 1) (IntV 7)) (Add (IntV 1) (IntV 2))) =
      Inr (Neg (IntV 2))"
  proof -
    from evaluate_Div_collapses [of "Sub (IntV 1) (IntV 7)" "Add (IntV 1) (IntV 2)"] children c(1)
    obtain res q where
      res: "evaluateExpression (Div (Sub (IntV 1) (IntV 7)) (Add (IntV 1) (IntV 2))) = Inr res"
      and q: "q * 3 = - 6" "numericValue res = Some q" "standardNumber res"
      by auto
    from q(1) have "q = - 2" by arith
    with standardNumber_unique[OF q(2,3)] res show ?thesis by simp
  qed
  have r5: "evaluateExpression (Div (IntV 4) (IntV 3)) = Inr (Div (IntV 4) (IntV 3))"
    using evaluate_Div_collapses [of "IntV 4" "IntV 3"] c(4) by auto
  have r6: "evaluateExpression (Div (IntV 4) (IntV 0)) = Inr (Div (IntV 4) (IntV 0))"
    using evaluate_Div_collapses [of "IntV 4" "IntV 0"] c(5) by auto
  have r7: "evaluateExpression (Div (Neg (IntV 7)) (IntV 2)) = Inr (Div (Neg (IntV 7)) (IntV 2))"
    using evaluate_Div_collapses [of "Neg (IntV 7)" "IntV 2"] c(6) by auto
  have r8: "evaluateExpression (Div (Var ''x'') (IntV 2)) = Inr (Div (Var ''x'') (IntV 2))"
    using evaluate_Div_collapses [of "Var ''x''" "IntV 2"] c(7) by auto
  from c children r1 r2 r3 r4 r5 r6 r7 r8 show ?thesis by blast
qed

section \<open>Claims about the parser and the renderer\<close>

text \<open>
  Claim C7. Binary operators of equal precedence associate to the left, and unary minus is
  parsed at the primary level, so it binds tighter than every binary operator and may
  stack: \<open>1-2-3\<close> parses to \<open>Sub (Sub (Int 1) (Int 2)) (Int 3)\<close>, \<open>-2*3\<close> to
  \<open>Mul (Neg (Int 2)) (Int 3)\<close> and \<open>--x\<close> to \<open>Neg (Neg (Var x))\<close>. The same holds
  for all operands \<open>a\<close>, \<open>b\<close>, \<open>c\<close> that are leaves or parenthesized: \<open>a o1 b o2 c\<close>
  with \<open>o1\<close>, \<open>o2\<close> of equal precedence parses to \<open>(a o1 b) o2 c\<close>, \<open>-a op b\<close> to
  \<open>(-a) op b\<close>, and \<open>--a\<close> to \<open>Neg (Neg a)\<close>.
\<close>

theorem parser_left_associative:
  "parseExpression ''1-2-3'' = Inr (Sub (Sub (IntV 1) (IntV 2)) (IntV 3)) \<and>
   parseExpression ''-2*3'' = Inr (Mul (Neg (IntV 2)) (IntV 3)) \<and>
   parseExpression ''--x'' = Inr (Neg (Neg (Var ''x''))) \<and>
   (precedence o1 = precedence o2 \<longrightarrow>
      Parser_parse (toks a @ TOp o1 # toks b @ TOp o2 # toks c) =
        Inr (binary o2 (binary o1 a b) c)) \<and>
   Parser_parse (TOp Minus # toks a @ TOp op # toks b) = Inr (binary op (Neg a) b) \<and>
   Parser_parse (TOp Minus # TOp Minus # toks a) = Inr (Neg (Neg a))"
proof -
  have "parseExpression ''1-2-3'' = Inr (Sub (Sub (IntV 1) (IntV 2)) (IntV 3))"
    by code_simp
  moreover have "parseExpression ''-2*3'' = Inr (Mul (Neg (IntV 2)) (IntV 3))"
    by code_simp
  moreover have "parseExpression ''--x'' = Inr (Neg (Neg (Var ''x'')))"
    by code_simp
  ultimately show ?thesis
    using parse_same_precedence parse_unary_minus parse_stacked_minus by blast
qed

text \<open>The claim at \<open>1 - 2 + 3\<close> and at \<open>a / (b + 1) * c\<close>.\<close>

theorem parser_left_associative_witness:
  "precedence Minus = precedence Plus \<and>
   Parser_parse [TNumber 1, TOp Minus, TNumber 2, TOp Plus, TNumber 3] =
     Inr (Add (Sub (IntV 1) (IntV 2)) (IntV 3)) \<and>
   precedence Slash = precedence Times \<and>
   Parser_parse [TVar ''a'', TOp Slash, TLParen, TVar ''b'', TOp Plus, TNumber 1, TRParen,
       TOp Times, TVar ''c''] =
     Inr (Mul (Div (Var ''a'') (Add (Var ''b'') (IntV 1))) (Var ''c''))"
  using parser_left_associative [of Minus Plus "IntV 1" "IntV 2" "IntV 3"]
    parser_left_associative [of Slash Times "Var ''a''" "Add (Var ''b'') (IntV 1)" "Var ''c''"]
  by simp

text \<open>
  Claim C5, as amended. For every expression whose \<open>Int\<close> leaves are non-negative integers
  that re-tokenize from their rendering and whose variable names are non-empty runs of
  ASCII letters, parsing the rendering succeeds, and evaluating the parsed tree gives the
  same tree as evaluating the expression itself. The \<open>Int\<close> leaves of an expression
  re-tokenize when they are non-negative integers below \<open>2^53\<close> and the host prints the
  decimal digits of every such integer, as the host of the source does. Beyond that the
  printing \<open>toStr\<close> of the host is arbitrary.
\<close>

theorem render_parse_evaluate:
  "(plainInts toStr e \<and> letterNames e \<longrightarrow>
      (\<exists>e' r. parseExpression (renderExpression toStr e) = Inr e' \<and>
         evaluateExpression e' = Inr r \<and> evaluateExpression e = Inr r)) \<and>
   (safeInts e \<and> (\<forall>v. 0 \<le> v \<and> v < 2 ^ 53 \<longrightarrow> toStr v = decimalString v) \<longrightarrow>
      plainInts toStr e)"
proof -
  have "\<exists>e' r. parseExpression (renderExpression toStr e) = Inr e' \<and>
         evaluateExpression e' = Inr r \<and> evaluateExpression e = Inr r"
    if "plainInts toStr e" "letterNames e"
  proof -
    have "parseExpression (renderExpression toStr e) = Inr e"
      using that by (rule parse_render)
    moreover obtain r where "evaluateExpression e = Inr r"
      using evaluateExpression_total by blast
    ultimately show ?thesis by blast
  qed
  moreover have "plainInts toStr e"
    if "safeInts e" "\<forall>v. 0 \<le> v \<and> v < 2 ^ 53 \<longrightarrow> toStr v = decimalString v"
    using that by (intro safeInts_plainInts) auto
  ultimately show ?thesis by blast
qed

text \<open>
  The amended claim at \<open>(9007199254740991 * x) + (-(4 + 6))\<close>, whose first leaf is
  \<open>2^53 - 1\<close>, with a host that prints decimal digits.
\<close>

theorem render_parse_evaluate_witness:
  "safeInts (Add (Mul (IntV 9007199254740991) (Var ''x'')) (Neg (Add (IntV 4) (IntV 6)))) \<and>
   plainInts decimalString
     (Add (Mul (IntV 9007199254740991) (Var ''x'')) (Neg (Add (IntV 4) (IntV 6)))) \<and>
   letterNames (Add (Mul (IntV 9007199254740991) (Var ''x'')) (Neg (Add (IntV 4) (IntV 6)))) \<and>
   renderExpression decimalString
     (Add (Mul (IntV 9007199254740991) (Var ''x'')) (Neg (Add (IntV 4) (IntV 6)))) =
     ''((9007199254740991 * x) + (-(4 + 6)))'' \<and>
   parseExpression ''((9007199254740991 * x) + (-(4 + 6)))'' =
     Inr (Add (Mul (IntV 9007199254740991) (Var ''x'')) (Neg (Add (IntV 4) (IntV 6)))) \<and>
   evaluateExpression (Add (Mul (IntV 9007199254740991) (Var ''x'')) (Neg (Add (IntV 4) (IntV 6)))) =
     Inr (Add (Mul (IntV 9007199254740991) (Var ''x'')) (Neg (IntV 10))) \<and>
   (\<exists>e' r. parseExpression ''((9007199254740991 * x) + (-(4 + 6)))'' = Inr e' \<and>
      evaluateExpression e' = Inr r \<and>
      evaluateExpression (Add (Mul (IntV 9007199254740991) (Var ''x'')) (Neg (Add (IntV 4) (IntV 6)))) =
        Inr r)"
proof -
  let ?e = "Add (Mul (IntV 9007199254740991) (Var ''x'')) (Neg (Add (IntV 4) (IntV 6)))"
  note claim = render_parse_evaluate [of decimalString ?e]
  have h0: "safeInts ?e"
    by (simp add: safeInts_simps)
  have h1: "plainInts decimalString ?e"
    using claim h0 by simp
  have h2: "letterNames ?e"
    by (simp add: letterNames_simps isLetter_def)
  have h3: "renderExpression decimalString ?e = ''((9007199254740991 * x) + (-(4 + 6)))''"
    by (simp add: decimalString_def digitsOf.simps digitChar_def)
  have h4: "parseExpression ''((9007199254740991 * x) + (-(4 + 6)))'' = Inr ?e"
    by code_simp
  have h5: "evaluateExpression ?e = Inr (Add (Mul (IntV 9007199254740991) (Var ''x'')) (Neg (IntV 10)))"
    by code_simp
  from claim [unfolded h3] h0 h1 h2 h3 h4 h5 show ?thesis by blast
qed

text \<open>
  Claim C5 as stated fails at the variable named \<open>1\<close>, which has no \<open>Int\<close> leaf: it
  renders as \<open>1\<close>, which parses to \<open>Int 1\<close>, and the two trees evaluate to themselves.
  It fails at \<open>Int (10^21)\<close> too, the tree that the parser returns for
  \<open>1000000000000000000000\<close>: the host prints this number as \<open>1e+21\<close>, and the parser
  refuses that: a number, the variable \<open>e\<close>, and tokens after the expression.
\<close>

theorem render_parse_evaluate_counterexample:
  "nonNegativeInts (Var ''1'') \<and>
   parseExpression (renderExpression decimalString (Var ''1'')) = Inr (IntV 1) \<and>
   evaluateExpression (IntV 1) = Inr (IntV 1) \<and>
   evaluateExpression (Var ''1'') = Inr (Var ''1'') \<and>
   IntV 1 \<noteq> Var ''1'' \<and>
   parseExpression ''1000000000000000000000'' = Inr (IntV (10 ^ 21)) \<and>
   nonNegativeInts (IntV (10 ^ 21)) \<and>
   renderExpression (\<lambda>v. if v = 10 ^ 21 then ''1e+21'' else decimalString v) (IntV (10 ^ 21)) =
     ''1e+21'' \<and>
   tokenize ''1e+21'' = Inr [TNumber 1, TVar ''e'', TOp Plus, TNumber 21] \<and>
   parseExpression ''1e+21'' = Inl UnexpectedTokensAfterExpression \<and>
   evaluateExpression (IntV (10 ^ 21)) = Inr (IntV (10 ^ 21))"
proof -
  have "parseExpression (renderExpression decimalString (Var ''1'')) = Inr (IntV 1)"
    by code_simp
  moreover have "parseExpression ''1000000000000000000000'' = Inr (IntV (10 ^ 21))"
    by code_simp
  moreover have "tokenize ''1e+21'' = Inr [TNumber 1, TVar ''e'', TOp Plus, TNumber 21]"
    by code_simp
  moreover have "parseExpression ''1e+21'' = Inl UnexpectedTokensAfterExpression"
    by code_simp
  ultimately show ?thesis by (simp add: nonNegativeInts_simps)
qed

text \<open>
  Claim C10, as amended. For every expression whose \<open>Int\<close> leaves are non-negative
  integers that re-tokenize from their rendering and whose variable names are non-empty
  runs of ASCII letters, parsing the rendering returns the expression. A non-negative
  integer below \<open>2^53\<close> re-tokenizes when the host prints its decimal digits, as the
  host of the source does in this range. The printing \<open>toStr\<close> of the host is arbitrary.
\<close>

theorem parse_render_identity:
  "(plainInts toStr e \<and> letterNames e \<longrightarrow>
      parseExpression (renderExpression toStr e) = Inr e) \<and>
   (0 \<le> n \<and> n < 2 ^ 53 \<and> toStr n = decimalString n \<longrightarrow> retokenizes toStr n)"
proof -
  have "parseExpression (renderExpression toStr e) = Inr e" if "plainInts toStr e" "letterNames e"
    using that by (rule parse_render)
  then show ?thesis using retokenizes_decimal by blast
qed

text \<open>
  The amended claim at \<open>(-ab) / (9007199254740991 * 0)\<close> and at the number
  \<open>2^53 - 1\<close>, with a host that prints decimal digits. The number \<open>10^21\<close> does not
  re-tokenize from \<open>1e+21\<close>.
\<close>

theorem parse_render_identity_witness:
  "plainInts decimalString (Div (Neg (Var ''ab'')) (Mul (IntV 9007199254740991) (IntV 0))) \<and>
   letterNames (Div (Neg (Var ''ab'')) (Mul (IntV 9007199254740991) (IntV 0))) \<and>
   renderExpression decimalString (Div (Neg (Var ''ab'')) (Mul (IntV 9007199254740991) (IntV 0))) =
     ''((-ab) / (9007199254740991 * 0))'' \<and>
   parseExpression ''((-ab) / (9007199254740991 * 0))'' =
     Inr (Div (Neg (Var ''ab'')) (Mul (IntV 9007199254740991) (IntV 0))) \<and>
   (0::int) \<le> 9007199254740991 \<and> (9007199254740991::int) < 2 ^ 53 \<and>
   decimalString 9007199254740991 = ''9007199254740991'' \<and>
   tokenize ''9007199254740991'' = Inr [TNumber 9007199254740991] \<and>
   \<not> retokenizes (\<lambda>v. if v = 10 ^ 21 then ''1e+21'' else decimalString v) (10 ^ 21)"
proof -
  let ?e = "Div (Neg (Var ''ab'')) (Mul (IntV 9007199254740991) (IntV 0))"
  have h1: "plainInts decimalString ?e"
    by (simp add: plainInts_simps retokenizes_decimal)
  have h2: "letterNames ?e"
    by (simp add: letterNames_simps isLetter_def)
  have h3: "renderExpression decimalString ?e = ''((-ab) / (9007199254740991 * 0))''"
    by (simp add: decimalString_def digitsOf.simps digitChar_def)
  have h4: "(0::int) \<le> 9007199254740991" "(9007199254740991::int) < 2 ^ 53"
    by simp_all
  have h5: "decimalString 9007199254740991 = ''9007199254740991''"
    by (simp add: decimalString_def digitsOf.simps digitChar_def)
  have h6: "tokenize ''1e+21'' = Inr [TNumber 1, TVar ''e'', TOp Plus, TNumber 21]"
    by code_simp
  have h7: "\<not> retokenizes (\<lambda>v. if v = 10 ^ 21 then ''1e+21'' else decimalString v) (10 ^ 21)"
    unfolding retokenizes_def using h6 by simp
  from parse_render_identity [of decimalString ?e 9007199254740991, unfolded h3 h5 retokenizes_def]
    h1 h2 h3 h4 h5 h7
  show ?thesis by blast
qed

text \<open>
  Claim C10 as stated fails at the variable named \<open>x1\<close>, which has no \<open>Int\<close> leaf: its
  rendering \<open>x1\<close> is a variable token followed by a number token, which the parser
  refuses.
\<close>

theorem parse_render_identity_counterexample:
  "plainInts decimalString (Var ''x1'') \<and>
   renderExpression decimalString (Var ''x1'') = ''x1'' \<and>
   parseExpression ''x1'' = Inl UnexpectedTokensAfterExpression \<and>
   parseExpression (renderExpression decimalString (Var ''x1'')) \<noteq> Inr (Var ''x1'')"
proof -
  have "parseExpression ''x1'' = Inl UnexpectedTokensAfterExpression"
    by code_simp
  then show ?thesis by (simp add: plainInts_simps)
qed

text \<open>
  Claim C8. Parsing succeeds exactly when the input tokenizes and its tokens match the
  grammar; the tokenizer succeeds exactly when every character is one it accepts, and
  otherwise reports an unexpected character of the input. Every failure of
  \<open>parseExpression\<close> is a syntax error: unexpected character, unexpected end of input
  (an operand is expected), missing closing parenthesis, unexpected token, or tokens left
  after a complete expression. In particular \<open>1 + \<close> and \<open>(1 + 2\<close> fail.
\<close>

theorem parse_fails_exactly:
  "((\<exists>e. parseExpression s = Inr e) \<longleftrightarrow> (\<exists>ts. tokenize s = Inr ts \<and> grammarAddSub ts)) \<and>
   ((\<exists>e. Parser_parse ts = Inr e) \<longleftrightarrow> grammarAddSub ts) \<and>
   ((\<exists>ts. tokenize s = Inr ts) \<longleftrightarrow> (\<forall>c \<in> set s. acceptedChar c)) \<and>
   (tokenize s = Inl err \<longrightarrow> (\<exists>c \<in> set s. err = UnexpectedCharacter c \<and> \<not> acceptedChar c)) \<and>
   (parseExpression s = Inl err \<longrightarrow> isSyntaxError err) \<and>
   parseExpression ''1 + '' = Inl UnexpectedEndOfInput \<and>
   parseExpression ''(1 + 2'' = Inl ExpectedClosingParenthesis \<and>
   parseExpression ''1 2'' = Inl UnexpectedTokensAfterExpression \<and>
   parseExpression ''1 + )'' = Inl (UnexpectedToken TRParen) \<and>
   parseExpression ''1 $ 2'' = Inl (UnexpectedCharacter CHR ''$'')"
proof -
  have "parseExpression ''1 + '' = Inl UnexpectedEndOfInput" by code_simp
  moreover have "parseExpression ''(1 + 2'' = Inl ExpectedClosingParenthesis" by code_simp
  moreover have "parseExpression ''1 2'' = Inl UnexpectedTokensAfterExpression" by code_simp
  moreover have "parseExpression ''1 + )'' = Inl (UnexpectedToken TRParen)" by code_simp
  moreover have "parseExpression ''1 $ 2'' = Inl (UnexpectedCharacter CHR ''$'')" by code_simp
  ultimately show ?thesis
    using parseExpression_grammar[of s] Parser_parse_grammar[of ts] tokenize_Inr_iff[of s]
      tokenize_Inl[of s err] parseExpression_errors[of s err]
    by blast
qed

text \<open>
  The claim at \<open>2*(x+1)\<close>, which matches the grammar, and at \<open>1 $ 2\<close> and \<open>1 + \<close>,
  which fail.
\<close>

theorem parse_fails_exactly_witness:
  "tokenize ''2*(x+1)'' = Inr [TNumber 2, TOp Times, TLParen, TVar ''x'', TOp Plus, TNumber 1, TRParen] \<and>
   parseExpression ''2*(x+1)'' = Inr (Mul (IntV 2) (Add (Var ''x'') (IntV 1))) \<and>
   grammarAddSub [TNumber 2, TOp Times, TLParen, TVar ''x'', TOp Plus, TNumber 1, TRParen] \<and>
   list_all acceptedChar ''2*(x+1)'' \<and>
   tokenize ''1 $ 2'' = Inl (UnexpectedCharacter CHR ''$'') \<and> \<not> acceptedChar CHR ''$'' \<and>
   parseExpression ''1 + '' = Inl UnexpectedEndOfInput \<and> isSyntaxError UnexpectedEndOfInput"
proof -
  have t: "tokenize ''2*(x+1)'' =
      Inr [TNumber 2, TOp Times, TLParen, TVar ''x'', TOp Plus, TNumber 1, TRParen]"
    by code_simp
  have p: "parseExpression ''2*(x+1)'' = Inr (Mul (IntV 2) (Add (Var ''x'') (IntV 1)))"
    by code_simp
  have b: "tokenize ''1 $ 2'' = Inl (UnexpectedCharacter CHR ''$'')"
    by code_simp
  have n: "\<not> acceptedChar CHR ''$''"
    by (simp add: acceptedChar_def isSpace_def isDigit_def isLetter_def isOperator_def)
  have e: "parseExpression ''1 + '' = Inl UnexpectedEndOfInput"
    by code_simp
  have q: "Parser_parse [TNumber 2, TOp Times, TLParen, TVar ''x'', TOp Plus, TNumber 1, TRParen] =
      Inr (Mul (IntV 2) (Add (Var ''x'') (IntV 1)))"
    by code_simp
  note inst = parse_fails_exactly [of "''2*(x+1)''"
      "[TNumber 2, TOp Times, TLParen, TVar ''x'', TOp Plus, TNumber 1, TRParen]"
      "UnexpectedEndOfInput"]
  from inst q
  have g: "grammarAddSub [TNumber 2, TOp Times, TLParen, TVar ''x'', TOp Plus, TNumber 1, TRParen]"
    by blast
  from inst t have "\<forall>c \<in> set ''2*(x+1)''. acceptedChar c"
    by blast
  then have a: "list_all acceptedChar ''2*(x+1)''"
    by (simp only: list_all_iff)
  from parse_fails_exactly [of "''1 + ''" "[]" UnexpectedEndOfInput] e
  have s: "isSyntaxError UnexpectedEndOfInput" by blast
  from t p g a b n e s show ?thesis by blast
qed

section \<open>Claims about the equivalence checker\<close>

text \<open>
  Claim C6. \<open>x / 0\<close> and \<open>1\<close> parse to \<open>Div (Var x) (Int 0)\<close> and \<open>Int 1\<close>, and the
  checker returns true on them for every sequence \<open>rnd\<close> of random draws. In each trial
  the only variable \<open>x\<close> receives a value \<open>d\<close>; the substituted tree
  \<open>Div (Int d) (Int 0)\<close> is left as it is by the evaluator, its folded value is
  undefined, and the trial is skipped.
\<close>

theorem zero_denominator_equivalent:
  "parseExpression ''x / 0'' = Inr (Div (Var ''x'') (IntV 0)) \<and>
   parseExpression ''1'' = Inr (IntV 1) \<and>
   areExpressionsEquivalent rnd (Div (Var ''x'') (IntV 0)) (IntV 1) = Inr True \<and>
   assignVariables rnd [''x''] Map.empty k =
     (Map.empty(''x'' \<mapsto> \<lfloor>rnd k * of_int rangeV\<rfloor> - rangeV div 2), Suc k) \<and>
   substituteVariables (varMap(''x'' \<mapsto> d)) (Div (Var ''x'') (IntV 0)) = Inr (Div (IntV d) (IntV 0)) \<and>
   evaluateExpression (Div (IntV d) (IntV 0)) = Inr (Div (IntV d) (IntV 0)) \<and>
   getComputedValue (Div (IntV d) (IntV 0)) = None \<and>
   trial (varMap(''x'' \<mapsto> d)) (Div (Var ''x'') (IntV 0)) (IntV 1) = Inr True"
proof -
  have "parseExpression ''x / 0'' = Inr (Div (Var ''x'') (IntV 0))"
    by code_simp
  moreover have "parseExpression ''1'' = Inr (IntV 1)"
    by code_simp
  moreover have "areExpressionsEquivalent rnd (Div (Var ''x'') (IntV 0)) (IntV 1) = Inr True"
    unfolding areExpressionsEquivalent_def Let_def variables_zero_denominator
    by (rule trialLoop_zero_denominator)
  moreover have "evaluateExpression (Div (IntV d) (IntV 0)) = Inr (Div (IntV d) (IntV 0))"
    by (simp add: combineDiv_def)
  ultimately show ?thesis
    using assignVariables_x trial_zero_denominator by simp
qed

end
